theory Spec2Isabelle
  imports Main "HOL-Library.Sublist" "HOL-Library.AList"
begin

section \<open>Data model\<close>

text \<open>
  The exceptions the embedded code can raise. \<open>MissingWeights\<close> is the
  \<^verbatim>\<open>AssertionError\<close> of \<^verbatim>\<open>XttsGPT.load_weights\<close>, carrying the set of names its
  message prints; \<open>AssertionError\<close> is any other failed \<^verbatim>\<open>assert\<close>.
\<close>

datatype error =
    IndexError
  | AttributeError
  | ValueError
  | RuntimeError
  | AssertionError
  | MissingWeights "string set"

text \<open>
  A tensor whose last dimension is the hidden dimension: its \<^verbatim>\<open>shape\<close> and its rows
  (vectors along the last dimension) in row-major order. A row is a value of an
  abstract type with an addition.
\<close>

record 'e tensor =
  shape :: "nat list"
  rows :: "'e list"

text \<open>The rows of a tensor are as many as its shape says.\<close>

definition well_shaped :: "'e tensor \<Rightarrow> bool" where
  "well_shaped t = (shape t \<noteq> [] \<and> length (rows t) = prod_list (butlast (shape t)))"

text \<open>\<^verbatim>\<open>t.shape[0]\<close> and \<^verbatim>\<open>t.shape[1]\<close>; indexing past the rank raises.\<close>

definition shape_at :: "'e tensor \<Rightarrow> nat \<Rightarrow> error + nat" where
  "shape_at t k = (if k < length (shape t) then Inr (shape t ! k) else Inl IndexError)"

text \<open>
  Python slicing \<^verbatim>\<open>xs[start:end]\<close> of a one-dimensional sequence with integer
  bounds: a negative bound counts from the end, and both are clipped to the
  sequence.
\<close>

definition py_bound :: "nat \<Rightarrow> int \<Rightarrow> nat" where
  "py_bound n i = (if i < 0 then nat (max (i + int n) 0) else min (nat i) n)"

definition py_slice :: "'a list \<Rightarrow> int \<Rightarrow> int \<Rightarrow> 'a list" where
  "py_slice xs start end = drop (py_bound (length xs) start) (take (py_bound (length xs) end) xs)"

section \<open>Conditioning alignment: the offset table of \<^verbatim>\<open>GPT2Model.forward\<close>\<close>

text \<open>
  \<^verbatim>\<open>
  starting_idx = []
  for input_embed in input_embeds:
      starting_idx.append(input_embed.shape[0])
  \<close>
\<close>

fun starting_idx_of :: "'e tensor list \<Rightarrow> error + int list" where
  "starting_idx_of [] = Inr []"
| "starting_idx_of (input_embed # rest) =
     (case shape_at input_embed 0 of
        Inl e \<Rightarrow> Inl e
      | Inr d \<Rightarrow> (case starting_idx_of rest of
                   Inl e \<Rightarrow> Inl e
                 | Inr ds \<Rightarrow> Inr (int d # ds)))"

text \<open>
  \<^verbatim>\<open>
  for i in range(1, len(starting_idx)):
      next_start = cumulative_ends[i - 1] + starting_idx[i]
      next_end = cumulative_ends[i - 1] + ending_ids[i]
      cumulative_starts.append(next_start)
      cumulative_ends.append(next_end)
  \<close>
  The loop runs over the list of its indices; every list access is checked, as
  Python's is.
\<close>

fun cumulative_loop ::
  "int list \<Rightarrow> int list \<Rightarrow> nat list \<Rightarrow> int list \<times> int list \<Rightarrow> error + int list \<times> int list" where
  "cumulative_loop starting_idx ending_ids [] acc = Inr acc"
| "cumulative_loop starting_idx ending_ids (i # rest) (cumulative_starts, cumulative_ends) =
     (if i - 1 < length cumulative_ends \<and> i < length starting_idx \<and> i < length ending_ids
      then
        (let next_start = cumulative_ends ! (i - 1) + starting_idx ! i;
             next_end = cumulative_ends ! (i - 1) + ending_ids ! i
         in cumulative_loop starting_idx ending_ids rest
              (cumulative_starts @ [next_start], cumulative_ends @ [next_end]))
      else Inl IndexError)"

text \<open>
  \<^verbatim>\<open>
  cumulative_starts = [starting_idx[0]]
  cumulative_ends = [ending_ids[0]]
  \<close>
  followed by the loop.
\<close>

definition compute_offsets :: "int list \<Rightarrow> int list \<Rightarrow> error + int list \<times> int list" where
  "compute_offsets starting_idx ending_ids =
     (if starting_idx = [] \<or> ending_ids = [] then Inl IndexError
      else cumulative_loop starting_idx ending_ids [1..<length starting_idx]
             ([starting_idx ! 0], [ending_ids ! 0]))"

text \<open>\<^verbatim>\<open>ids_for_unpacking = [end-start for start, end in zip(cumulative_starts, cumulative_ends)]\<close>\<close>

definition ids_for_unpacking_of :: "int list \<Rightarrow> int list \<Rightarrow> int list" where
  "ids_for_unpacking_of cumulative_starts cumulative_ends =
     map (\<lambda>(start, end). end - start) (zip cumulative_starts cumulative_ends)"

text \<open>
  The alignment engine on a per-request bundle, lines 412 to 428;
  \<^verbatim>\<open>ending_ids = attn_metadata.seq_lens\<close>.
\<close>

definition align :: "'e tensor list \<Rightarrow> int list \<Rightarrow> error + int list \<times> int list" where
  "align input_embeds ending_ids =
     (case starting_idx_of input_embeds of
        Inl e \<Rightarrow> Inl e
      | Inr starting_idx \<Rightarrow> compute_offsets starting_idx ending_ids)"

section \<open>Phase classification\<close>

datatype phase = PRIMING | INCREMENTAL | LOGITS_ONLY

text \<open>
  The \<^verbatim>\<open>is_logits_only_mode\<close> argument: a Python \<^verbatim>\<open>bool\<close>, a tensor (the truth
  values of its elements, flattened), or any other object (its truth value).
\<close>

datatype flag = FlagBool bool | FlagTensor "bool list" | FlagOther bool

text \<open>
  \<^verbatim>\<open>
  if isinstance(is_logits_only_mode, bool):
      return is_logits_only_mode
  if torch.is_tensor(is_logits_only_mode):
      if is_logits_only_mode.numel() == 1:
          return bool(is_logits_only_mode.item())
      return is_logits_only_mode.any()
  return bool(is_logits_only_mode)
  \<close>
\<close>

fun check_is_logits_only_mode :: "flag \<Rightarrow> bool" where
  "check_is_logits_only_mode (FlagBool b) = b"
| "check_is_logits_only_mode (FlagTensor xs) =
     (if length xs = 1 then hd xs else list_ex (\<lambda>x. x) xs)"
| "check_is_logits_only_mode (FlagOther b) = b"

text \<open>The two token ids of \<^verbatim>\<open>torch.tensor([1, 1024])\<close>: the filler and the start-of-audio token.\<close>

definition PAD_FILLER_ID :: int where
  "PAD_FILLER_ID = 1"

definition START_AUDIO_TOKEN_ID :: int where
  "START_AUDIO_TOKEN_ID = 1024"

text \<open>
  \<^verbatim>\<open>is_first_iteration = len(input_ids) > 1 and torch.isin(input_ids, torch.tensor([1, 1024])).all()\<close>
\<close>

definition is_first_iteration_of :: "int list \<Rightarrow> bool" where
  "is_first_iteration_of input_ids =
     (length input_ids > 1 \<and> list_all (\<lambda>t. t \<in> set [PAD_FILLER_ID, START_AUDIO_TOKEN_ID]) input_ids)"

text \<open>
  The dispatch of \<^verbatim>\<open>GPT2Model.forward\<close> on its two flags (lines 407, 409 and 443):
  \<^verbatim>\<open>
  if is_first_iteration and not is_logits_only_mode: ...
  elif is_logits_only_mode: ...
  else: ...
  \<close>
\<close>

definition phase_of :: "bool \<Rightarrow> bool \<Rightarrow> phase" where
  "phase_of is_first_iteration is_logits_only_mode =
     (if is_first_iteration \<and> \<not> is_logits_only_mode then PRIMING
      else if is_logits_only_mode then LOGITS_ONLY
      else INCREMENTAL)"

text \<open>The phase of a call of \<^verbatim>\<open>XttsGPT.forward\<close>, which computes both flags (lines 291 and 295).\<close>

definition classify :: "int list \<Rightarrow> flag \<Rightarrow> phase" where
  "classify input_ids is_logits_only_mode =
     phase_of (is_first_iteration_of input_ids) (check_is_logits_only_mode is_logits_only_mode)"

section \<open>The model and its inputs\<close>

text \<open>
  \<^verbatim>\<open>GPT2Model\<close>: \<^verbatim>\<open>embed_dim\<close>, the token embedding table \<^verbatim>\<open>wte\<close> and the table
  \<^verbatim>\<open>wpe.emb\<close> of the positional embedding, both as lookups from an index to a row
  (what a lookup does outside its table is outside this model), the range of
  layers this process owns, the layers \<^verbatim>\<open>h[i]\<close> and the normalization \<^verbatim>\<open>ln_f\<close>. A layer
  is a function on the hidden states: its key/value cache and the attention
  metadata belong to the external block.
\<close>

record 'e gpt2 =
  embed_dim :: nat
  wte :: "int \<Rightarrow> 'e"
  wpe_emb :: "int \<Rightarrow> 'e"
  start_layer :: nat
  end_layer :: nat
  h :: "nat \<Rightarrow> 'e list \<Rightarrow> 'e list"
  ln_f :: "'e list \<Rightarrow> 'e list"

text \<open>The two fields of \<^verbatim>\<open>attn_metadata\<close> the code reads.\<close>

record attn_metadata =
  seq_lens :: "int list"
  num_prefill_tokens :: int

text \<open>\<^verbatim>\<open>input_embeds\<close>: \<^verbatim>\<open>None\<close>, one tensor, or a list of tensors.\<close>

datatype 'e conditioning = CondNone | CondTensor "'e tensor" | CondList "'e tensor list"

text \<open>\<^verbatim>\<open>hidden_states\<close> after line 457: one tensor, or the list \<^verbatim>\<open>split\<close> returns.\<close>

datatype 'e hidden = One "'e tensor" | Many "'e tensor list"

section \<open>Tensor operations used by the assembly\<close>

text \<open>\<^verbatim>\<open>t.squeeze(0)\<close>: the first dimension is removed when its size is 1.\<close>

definition squeeze0 :: "'e tensor \<Rightarrow> 'e tensor" where
  "squeeze0 t = (case shape t of [] \<Rightarrow> t | d # ds \<Rightarrow> if d = 1 then t\<lparr>shape := ds\<rparr> else t)"

text \<open>
  \<^verbatim>\<open>t.view(-1, t.shape[-1])\<close>: a scalar has no last dimension; a last dimension of
  size 0 leaves the inferred one ambiguous, which \<^verbatim>\<open>view\<close> rejects.
\<close>

definition view2d :: "'e tensor \<Rightarrow> error + 'e tensor" where
  "view2d t =
     (if shape t = [] then Inl IndexError
      else if last (shape t) = 0 then Inl RuntimeError
      else Inr \<lparr>shape = [prod_list (butlast (shape t)), last (shape t)], rows = rows t\<rparr>)"

text \<open>\<^verbatim>\<open>t[:-1]\<close> on a two-dimensional tensor: all rows but the last.\<close>

definition drop_last_row :: "'e tensor \<Rightarrow> 'e tensor" where
  "drop_last_row t = \<lparr>shape = (hd (shape t) - 1) # tl (shape t), rows = butlast (rows t)\<rparr>"

text \<open>Shapes broadcast from the right: sizes agree or one of them is 1.\<close>

fun broadcast_rev :: "nat list \<Rightarrow> nat list \<Rightarrow> nat list option" where
  "broadcast_rev [] ys = Some ys"
| "broadcast_rev (x # xs) [] = Some (x # xs)"
| "broadcast_rev (x # xs) (y # ys) =
     (if x = y \<or> y = 1 then map_option ((#) x) (broadcast_rev xs ys)
      else if x = 1 then map_option ((#) y) (broadcast_rev xs ys)
      else None)"

definition broadcast_shape :: "nat list \<Rightarrow> nat list \<Rightarrow> nat list option" where
  "broadcast_shape a b = map_option rev (broadcast_rev (rev a) (rev b))"

text \<open>
  \<^verbatim>\<open>a + b\<close> with broadcasting. Every tensor added in \<^verbatim>\<open>GPT2Model.forward\<close> has size 1
  in all dimensions before its last two, so the rows of the sum pair the rows of the
  operands by position, or repeat the only row of one of them.
\<close>

definition tensor_add :: "('e::plus) tensor \<Rightarrow> 'e tensor \<Rightarrow> error + 'e tensor" where
  "tensor_add a b =
     (case broadcast_shape (shape a) (shape b) of
        None \<Rightarrow> Inl RuntimeError
      | Some sh \<Rightarrow>
          Inr \<lparr>shape = sh,
               rows = (if length (rows a) = length (rows b) then map2 (+) (rows a) (rows b)
                       else if length (rows a) = 1 then map (\<lambda>y. hd (rows a) + y) (rows b)
                       else map (\<lambda>x. x + hd (rows b)) (rows a))\<rparr>)"

fun split_rows :: "'a list \<Rightarrow> nat list \<Rightarrow> 'a list list" where
  "split_rows xs [] = []"
| "split_rows xs (k # ks) = take k xs # split_rows (drop k xs) ks"

text \<open>
  \<^verbatim>\<open>t.split(sizes, dim=0)\<close>: the sizes must be non-negative and sum to the size of
  dimension 0; piece \<open>i\<close> holds \<open>sizes[i]\<close> slices along that dimension. The tensor
  split on line 457 has at least two dimensions.
\<close>

definition tensor_split :: "'e tensor \<Rightarrow> int list \<Rightarrow> error + 'e tensor list" where
  "tensor_split t sizes =
     (case shape t of
        [] \<Rightarrow> Inl RuntimeError
      | d # ds \<Rightarrow>
          if ds = [] \<or> list_ex (\<lambda>k. k < 0) sizes \<or> sum_list sizes \<noteq> int d then Inl RuntimeError
          else Inr (map2 (\<lambda>k r. \<lparr>shape = nat k # ds, rows = r\<rparr>) sizes
                      (split_rows (rows t) (map (\<lambda>k. nat k * prod_list (butlast ds)) sizes))))"

text \<open>
  \<^verbatim>\<open>torch.cat(ts, dim=0)\<close>: the list must not be empty, and the tensors must have the
  same number of dimensions and the same sizes in every dimension but the first.
\<close>

definition cat_dim0 :: "'e tensor list \<Rightarrow> error + 'e tensor" where
  "cat_dim0 ts =
     (case ts of
        [] \<Rightarrow> Inl RuntimeError
      | t # _ \<Rightarrow>
          if list_all (\<lambda>u. shape u \<noteq> [] \<and> tl (shape u) = tl (shape t)) ts
          then Inr \<lparr>shape = sum_list (map (\<lambda>u. hd (shape u)) ts) # tl (shape t),
                    rows = concat (map rows ts)\<rparr>
          else Inl RuntimeError)"

section \<open>\<^verbatim>\<open>LearnedPositionEmbeddings\<close>\<close>

text \<open>
  The positional embedding of a model with \<^verbatim>\<open>max_audio_tokens != -1\<close>.
  \<^verbatim>\<open>forward(x)\<close> with \<^verbatim>\<open>relative=False\<close>, as \<^verbatim>\<open>GPT2Model\<close> constructs it:
  \<^verbatim>\<open>sl = x.shape[1]; return self.emb(torch.arange(0, sl))\<close>.
\<close>

definition wpe_forward :: "'e gpt2 \<Rightarrow> nat \<Rightarrow> 'e tensor" where
  "wpe_forward m sl = \<lparr>shape = [sl, embed_dim m], rows = map (\<lambda>i. wpe_emb m (int i)) [0..<sl]\<rparr>"

text \<open>
  \<^verbatim>\<open>
  if ind.shape[0] > 1:
      for index in ind: pos_embeddings.append(self.emb(index))
      return torch.stack(pos_embeddings, dim=0)
  else:
      return self.emb(torch.tensor([ind], device=dev)).unsqueeze(0)
  \<close>
  on a one-dimensional \<^verbatim>\<open>ind\<close>. The second branch returns shape \<open>[1, 1, model_dim]\<close>;
  \<^verbatim>\<open>torch.tensor([ind])\<close> needs \<^verbatim>\<open>ind\<close> to hold exactly one element.
\<close>

definition get_fixed_embedding :: "'e gpt2 \<Rightarrow> int list \<Rightarrow> error + 'e tensor" where
  "get_fixed_embedding m ind =
     (if length ind > 1
      then Inr \<lparr>shape = [length ind, embed_dim m], rows = map (wpe_emb m) ind\<rparr>
      else (case ind of
              [p] \<Rightarrow> Inr \<lparr>shape = [1, 1, embed_dim m], rows = [wpe_emb m p]\<rparr>
            | _ \<Rightarrow> Inl ValueError))"

section \<open>\<^verbatim>\<open>GPT2Model.forward\<close> on the first pipeline rank: the hidden-state assembly\<close>

text \<open>
  Lines 407 to 444: which tokens and positions are embedded. The result holds
  whether \<^verbatim>\<open>input_ids\<close> now has shape \<open>[1, n]\<close> (after \<^verbatim>\<open>reshape(1, -1)\<close>) or is still
  one-dimensional, the tokens, the positions, and \<^verbatim>\<open>ids_for_unpacking\<close> where the
  code defines it.
\<close>

definition select_inputs ::
  "int list \<Rightarrow> int list \<Rightarrow> attn_metadata \<Rightarrow> 'e conditioning \<Rightarrow> bool \<Rightarrow> bool
   \<Rightarrow> error + bool \<times> int list \<times> int list \<times> int list option" where
  "select_inputs input_ids position_ids attn input_embeds is_first_iteration is_logits_only_mode =
     (case phase_of is_first_iteration is_logits_only_mode of
        PRIMING \<Rightarrow>
          (if input_ids = [] then Inl IndexError
           else Inr (True, [last input_ids], position_ids, None))
      | LOGITS_ONLY \<Rightarrow>
          (case input_embeds of
             CondList embeds \<Rightarrow>
               (case align embeds (seq_lens attn) of
                  Inl e \<Rightarrow> Inl e
                | Inr (cumulative_starts, cumulative_ends) \<Rightarrow>
                    Inr (True,
                         concat (map (\<lambda>(start, end). py_slice input_ids start end)
                                   (zip cumulative_starts cumulative_ends)),
                         concat (map (\<lambda>(start, end). py_slice position_ids start end)
                                   (zip cumulative_starts cumulative_ends)),
                         Some (ids_for_unpacking_of cumulative_starts cumulative_ends)))
           | CondTensor t \<Rightarrow>
               (case shape_at t 1 of
                  Inl e \<Rightarrow> Inl e
                | Inr offset \<Rightarrow> Inr (True, drop offset input_ids, drop offset position_ids, None))
           | CondNone \<Rightarrow> Inl AttributeError)
      | INCREMENTAL \<Rightarrow> Inr (False, input_ids, position_ids, None))"

text \<open>\<^verbatim>\<open>audio_inputs_embeds = self.wte(input_ids).squeeze(0)\<close>\<close>

definition audio_inputs_embeds_of :: "'e gpt2 \<Rightarrow> bool \<Rightarrow> int list \<Rightarrow> 'e tensor" where
  "audio_inputs_embeds_of m two_dim input_ids =
     squeeze0 \<lparr>shape = (if two_dim then [1, length input_ids] else [length input_ids]) @ [embed_dim m],
               rows = map (wte m) input_ids\<rparr>"

text \<open>
  Lines 449 to 452. In the first iteration the argument of \<^verbatim>\<open>self.wpe\<close> is
  \<^verbatim>\<open>audio_inputs_embeds.reshape(-1, 1)\<close>, whose \<^verbatim>\<open>shape[1]\<close> is 1.
\<close>

definition position_embeds_of :: "'e gpt2 \<Rightarrow> bool \<Rightarrow> int list \<Rightarrow> error + 'e tensor" where
  "position_embeds_of m is_first_iteration position_ids =
     (if \<not> is_first_iteration then get_fixed_embedding m position_ids
      else Inr (wpe_forward m 1))"

text \<open>
  Lines 456 and 457:
  \<^verbatim>\<open>
  if isinstance(input_embeds, list) and is_logits_only_mode:
      hidden_states = list(hidden_states.split(ids_for_unpacking, dim=0))
  \<close>
\<close>

definition unpack_hidden ::
  "'e conditioning \<Rightarrow> bool \<Rightarrow> int list option \<Rightarrow> 'e tensor \<Rightarrow> error + 'e hidden" where
  "unpack_hidden input_embeds is_logits_only_mode ids_for_unpacking hidden_states =
     (case (input_embeds, is_logits_only_mode, ids_for_unpacking) of
        (CondList _, True, Some sizes) \<Rightarrow>
          (case tensor_split hidden_states sizes of
             Inl e \<Rightarrow> Inl e
           | Inr pieces \<Rightarrow> Inr (Many pieces))
      | _ \<Rightarrow> Inr (One hidden_states))"

text \<open>\<^verbatim>\<open>[input_embed.view(-1, input_embed.shape[-1]) for input_embed in input_embeds]\<close>\<close>

fun view_all :: "'e tensor list \<Rightarrow> error + 'e tensor list" where
  "view_all [] = Inr []"
| "view_all (t # ts) =
     (case view2d t of
        Inl e \<Rightarrow> Inl e
      | Inr v \<Rightarrow> (case view_all ts of Inl e \<Rightarrow> Inl e | Inr vs \<Rightarrow> Inr (v # vs)))"

text \<open>
  Lines 459 to 481, under \<^verbatim>\<open>is_first_iteration or is_logits_only_mode\<close>: the
  conditioning is viewed as two-dimensional, a single tensor loses its last row
  when its row count equals \<^verbatim>\<open>num_prefill_tokens\<close>, and the conditioning is
  concatenated with the hidden states:
  \<^verbatim>\<open>
  torch.cat([tensor for pair in zip(input_embeds,
                 [hidden_states] * len(input_embeds)
                 if not isinstance(hidden_states, list) else hidden_states)
             for tensor in pair], dim=0)
  \<close>
  for a list, \<^verbatim>\<open>torch.cat([input_embeds, hidden_states], dim=0)\<close> for a tensor.
\<close>

definition concat_conditioning ::
  "attn_metadata \<Rightarrow> 'e conditioning \<Rightarrow> 'e hidden \<Rightarrow> error + 'e tensor" where
  "concat_conditioning attn input_embeds hidden_states =
     (case input_embeds of
        CondNone \<Rightarrow> Inl AttributeError
      | CondList embeds \<Rightarrow>
          (case view_all embeds of
             Inl e \<Rightarrow> Inl e
           | Inr views \<Rightarrow>
               cat_dim0 (concat (map (\<lambda>(cond, hid). [cond, hid])
                 (zip views (case hidden_states of
                               One hid \<Rightarrow> replicate (length views) hid
                             | Many hs \<Rightarrow> hs)))))
      | CondTensor t \<Rightarrow>
          (case view2d t of
             Inl e \<Rightarrow> Inl e
           | Inr v \<Rightarrow>
               (let v' = (if int (hd (shape v)) = num_prefill_tokens attn then drop_last_row v else v)
                in case hidden_states of
                     One hid \<Rightarrow> cat_dim0 [v', hid]
                   | Many hs \<Rightarrow> Inl RuntimeError)))"

text \<open>\<^verbatim>\<open>hidden_states.view(-1, self.embed_dim)\<close>: the rows of the result.\<close>

definition flatten_hidden :: "'e gpt2 \<Rightarrow> 'e tensor \<Rightarrow> error + 'e list" where
  "flatten_hidden m t = (if embed_dim m = 0 then Inl RuntimeError else Inr (rows t))"

text \<open>Lines 406 to 484: the branch of \<^verbatim>\<open>get_pp_group().is_first_rank\<close>.\<close>

definition assemble ::
  "('e::plus) gpt2 \<Rightarrow> int list \<Rightarrow> int list \<Rightarrow> attn_metadata \<Rightarrow> 'e conditioning \<Rightarrow> bool \<Rightarrow> bool
   \<Rightarrow> error + 'e list" where
  "assemble m input_ids position_ids attn input_embeds is_first_iteration is_logits_only_mode =
     (case select_inputs input_ids position_ids attn input_embeds
             is_first_iteration is_logits_only_mode of
        Inl e \<Rightarrow> Inl e
      | Inr (two_dim, ids, positions, ids_for_unpacking) \<Rightarrow>
          (case position_embeds_of m is_first_iteration positions of
             Inl e \<Rightarrow> Inl e
           | Inr position_embeds \<Rightarrow>
               (case tensor_add (audio_inputs_embeds_of m two_dim ids) position_embeds of
                  Inl e \<Rightarrow> Inl e
                | Inr hidden_states \<Rightarrow>
                    (case unpack_hidden input_embeds is_logits_only_mode ids_for_unpacking
                            hidden_states of
                       Inl e \<Rightarrow> Inl e
                     | Inr unpacked \<Rightarrow>
                         (if is_first_iteration \<or> is_logits_only_mode
                          then (case concat_conditioning attn input_embeds unpacked of
                                  Inl e \<Rightarrow> Inl e
                                | Inr t \<Rightarrow> flatten_hidden m t)
                          else (case unpacked of
                                  One t \<Rightarrow> flatten_hidden m t
                                | Many ts \<Rightarrow> Inl RuntimeError))))))"

section \<open>\<^verbatim>\<open>GPT2Model.forward\<close>: the layers and the last normalization\<close>

text \<open>The answers of \<^verbatim>\<open>get_pp_group()\<close>.\<close>

record pp_group =
  is_first_rank :: bool
  is_last_rank :: bool

text \<open>The modules a call applies to the hidden states, in the order of the calls.\<close>

datatype module_call = Block nat | LnF | FinalNorm | HiddenStateCollector | MelHead

text \<open>What \<^verbatim>\<open>GPT2Model.forward\<close> returns: hidden states, or \<^verbatim>\<open>IntermediateTensors\<close>.\<close>

datatype 'e forward_result = HiddenStates "'e list" | IntermediateTensors "'e list"

text \<open>
  \<^verbatim>\<open>
  for i in range(self.start_layer, self.end_layer):
      layer = self.h[i]
      hidden_states = layer(hidden_states, kv_caches[i - self.start_layer], attn_metadata)
  \<close>
\<close>

fun apply_layers :: "'e gpt2 \<Rightarrow> nat list \<Rightarrow> 'e list \<Rightarrow> 'e list" where
  "apply_layers m [] hidden_states = hidden_states"
| "apply_layers m (i # rest) hidden_states = apply_layers m rest (h m i hidden_states)"

text \<open>
  \<^verbatim>\<open>GPT2Model.forward\<close>: the assembly on the first rank, the received
  \<^verbatim>\<open>hidden_states\<close> otherwise; the owned layers; on the last rank \<^verbatim>\<open>ln_f\<close>, otherwise
  the hand-off. The second component lists the modules applied.
\<close>

definition GPT2Model_forward ::
  "('e::plus) gpt2 \<Rightarrow> pp_group \<Rightarrow> int list \<Rightarrow> int list \<Rightarrow> attn_metadata \<Rightarrow> 'e list option
   \<Rightarrow> 'e conditioning \<Rightarrow> bool \<Rightarrow> bool \<Rightarrow> error + 'e forward_result \<times> module_call list" where
  "GPT2Model_forward m pp input_ids position_ids attn intermediate_tensors input_embeds
     is_first_iteration is_logits_only_mode =
     (case (if is_first_rank pp
            then assemble m input_ids position_ids attn input_embeds
                   is_first_iteration is_logits_only_mode
            else (case intermediate_tensors of
                    None \<Rightarrow> Inl AssertionError
                  | Some hidden_states \<Rightarrow> Inr hidden_states)) of
        Inl e \<Rightarrow> Inl e
      | Inr hidden_states \<Rightarrow>
          (let layers = [start_layer m..<end_layer m];
               hidden_states' = apply_layers m layers hidden_states
           in if \<not> is_last_rank pp
              then Inr (IntermediateTensors hidden_states', map Block layers)
              else Inr (HiddenStates (ln_f m hidden_states'), map Block layers @ [LnF])))"

section \<open>\<^verbatim>\<open>XttsGPT\<close>\<close>

text \<open>
  \<^verbatim>\<open>XttsGPT\<close>: its \<^verbatim>\<open>gpt\<close>, its own \<^verbatim>\<open>final_norm\<close>, and the projection
  \<^verbatim>\<open>logits_processor(mel_head, ...)\<close> to the logits.
\<close>

record ('e, 'l) xtts_gpt =
  gpt :: "'e gpt2"
  final_norm :: "'e list \<Rightarrow> 'e list"
  logits_processor :: "'e list \<Rightarrow> 'l"

text \<open>
  \<^verbatim>\<open>XttsGPT.forward\<close>: both flags are computed from the call's arguments and passed
  to \<^verbatim>\<open>self.gpt\<close>.
\<close>

definition XttsGPT_forward ::
  "('e::plus, 'l) xtts_gpt \<Rightarrow> pp_group \<Rightarrow> int list \<Rightarrow> int list \<Rightarrow> attn_metadata \<Rightarrow> 'e list option
   \<Rightarrow> 'e conditioning \<Rightarrow> flag \<Rightarrow> error + 'e forward_result \<times> module_call list" where
  "XttsGPT_forward x pp input_ids positions attn intermediate_tensors cond_latents is_logits_only_mode =
     GPT2Model_forward (gpt x) pp input_ids positions attn intermediate_tensors cond_latents
       (is_first_iteration_of input_ids) (check_is_logits_only_mode is_logits_only_mode)"

text \<open>
  \<^verbatim>\<open>sampling_metadata.seq_groups\<close>: of each group, whether its \<^verbatim>\<open>sampling_params\<close>
  has a \<^verbatim>\<open>hidden_state_collector\<close>.
\<close>

record sampling_metadata =
  seq_groups :: "bool list"

text \<open>
  The outcome of \<^verbatim>\<open>compute_logits\<close>: the logits, what the collector of the first
  group received, and the modules applied.
\<close>

record ('e, 'l) logits_result =
  logits :: 'l
  collected :: "'e list option"
  calls :: "module_call list"

text \<open>
  \<^verbatim>\<open>
  hidden_states = self.final_norm(hidden_states)
  sampling_params = sampling_metadata.seq_groups[0].sampling_params
  if hasattr(sampling_params, 'hidden_state_collector'):
      sampling_params.hidden_state_collector(hidden_states, None)
  logits = self.logits_processor(self.mel_head, hidden_states, sampling_metadata)
  \<close>
\<close>

definition compute_logits ::
  "('e, 'l) xtts_gpt \<Rightarrow> 'e list \<Rightarrow> sampling_metadata \<Rightarrow> error + ('e, 'l) logits_result" where
  "compute_logits x hidden_states sm =
     (let normalized = final_norm x hidden_states
      in case seq_groups sm of
           [] \<Rightarrow> Inl IndexError
         | has_collector # _ \<Rightarrow>
             Inr \<lparr>logits = logits_processor x normalized,
                  collected = (if has_collector then Some normalized else None),
                  calls = [FinalNorm] @ (if has_collector then [HiddenStateCollector] else [])
                          @ [MelHead]\<rparr>)"

text \<open>The calls that normalize.\<close>

fun is_normalization :: "module_call \<Rightarrow> bool" where
  "is_normalization LnF = True"
| "is_normalization FinalNorm = True"
| "is_normalization _ = False"

section \<open>\<^verbatim>\<open>XttsGPT.load_weights\<close>\<close>

text \<open>
  What loading does to a tensor: \<^verbatim>\<open>loaded_weight.t()\<close>, and the parameter's
  \<^verbatim>\<open>weight_loader\<close> (its own or \<^verbatim>\<open>default_weight_loader\<close>), which gives the
  parameter its new value or raises.
\<close>

record 'w loading =
  transpose :: "'w \<Rightarrow> 'w"
  weight_loader :: "string \<Rightarrow> 'w \<Rightarrow> 'w \<Rightarrow> error + 'w"

text \<open>
  \<^verbatim>\<open>"c_attn" in name or "c_proj" in name or "c_fc" in name\<close>, and
  \<^verbatim>\<open>name.endswith(".weight")\<close>.
\<close>

definition is_transposed :: "string \<Rightarrow> bool" where
  "is_transposed name =
     ((sublist ''c_attn'' name \<or> sublist ''c_proj'' name \<or> sublist ''c_fc'' name)
      \<and> suffix ''.weight'' name)"

text \<open>
  The loop over the supplied weights. \<^verbatim>\<open>params_dict\<close> is the dictionary of the
  declared parameters, in the order of \<^verbatim>\<open>named_parameters\<close>; a loaded parameter is
  changed in place.
  \<^verbatim>\<open>
  for name, loaded_weight in weights:
      if name not in params_dict:
          continue
      param = params_dict[name]
      if "c_attn" in name or "c_proj" in name or "c_fc" in name:
          if name.endswith(".weight"):
              loaded_weight = loaded_weight.t()
      weight_loader = getattr(param, "weight_loader", default_weight_loader)
      weight_loader(param, loaded_weight)
      loaded_names.add(name)
  \<close>
\<close>

fun load_loop ::
  "'w loading \<Rightarrow> (string \<times> 'w) list \<Rightarrow> string set \<Rightarrow> (string \<times> 'w) list
   \<Rightarrow> error + (string \<times> 'w) list \<times> string set" where
  "load_loop ld params_dict loaded_names [] = Inr (params_dict, loaded_names)"
| "load_loop ld params_dict loaded_names ((name, loaded_weight) # weights) =
     (case map_of params_dict name of
        None \<Rightarrow> load_loop ld params_dict loaded_names weights
      | Some param \<Rightarrow>
          (let loaded_weight' = (if is_transposed name then transpose ld loaded_weight
                                 else loaded_weight)
           in case weight_loader ld name param loaded_weight' of
                Inl e \<Rightarrow> Inl e
              | Inr param' \<Rightarrow>
                  load_loop ld (AList.update name param' params_dict)
                    (insert name loaded_names) weights))"

text \<open>
  \<^verbatim>\<open>
  assert set(params_dict.keys()) - loaded_names == set(), \
      (f"Missing weights: {set(params_dict.keys()) - loaded_names}, " ...)
  \<close>
\<close>

definition load_weights ::
  "'w loading \<Rightarrow> (string \<times> 'w) list \<Rightarrow> (string \<times> 'w) list \<Rightarrow> error + (string \<times> 'w) list" where
  "load_weights ld params_dict weights =
     (case load_loop ld params_dict {} weights of
        Inl e \<Rightarrow> Inl e
      | Inr (params_dict', loaded_names) \<Rightarrow>
          if set (map fst params_dict') - loaded_names = {} then Inr params_dict'
          else Inl (MissingWeights (set (map fst params_dict') - loaded_names)))"

section \<open>The packed batch of a logits-only call\<close>

text \<open>
  What one request contributes to the packed batch of a logits-only call. Its
  prompt is built by \<^verbatim>\<open>input_processor_for_xtts2_gpt\<close> (line 186) as one filler token
  for every row of the conditioning, followed by the audio tokens; the host
  concatenates the prompts of the requests of the batch and gives a position to
  every token. A request is described by its conditioning tensor and by the
  (token, position) pairs of its filler part and of its audio part.
\<close>

record 'e request =
  req_cond :: "'e tensor"
  req_placeholder :: "(int \<times> int) list"
  req_audio :: "(int \<times> int) list"

definition packed_input_ids :: "'e request list \<Rightarrow> int list" where
  "packed_input_ids rs =
     concat (map (\<lambda>r. map fst (req_placeholder r) @ map fst (req_audio r)) rs)"

definition packed_position_ids :: "'e request list \<Rightarrow> int list" where
  "packed_position_ids rs =
     concat (map (\<lambda>r. map snd (req_placeholder r) @ map snd (req_audio r)) rs)"

definition packed_seq_lens :: "'e request list \<Rightarrow> int list" where
  "packed_seq_lens rs = map (\<lambda>r. int (length (req_placeholder r) + length (req_audio r))) rs"

text \<open>
  The conditioning of a request is two-dimensional, with one row for every filler
  token and rows of the model's hidden size.
\<close>

definition request_ok :: "'e gpt2 \<Rightarrow> 'e request \<Rightarrow> bool" where
  "request_ok m r =
     (shape (req_cond r) = [length (req_placeholder r), embed_dim m]
      \<and> length (rows (req_cond r)) = length (req_placeholder r))"

section \<open>Properties of the offset table\<close>

lemma cumulative_loop_inv:
  "k \<le> n \<Longrightarrow> n \<le> length cs \<Longrightarrow> n \<le> length ss \<Longrightarrow> length S = k \<Longrightarrow> length E = k \<Longrightarrow> 0 < k \<Longrightarrow>
   \<exists>S' E'. cumulative_loop cs ss [k..<n] (S, E) = Inr (S', E')
     \<and> length S' = n \<and> length E' = n \<and> take k S' = S \<and> take k E' = E
     \<and> (\<forall>i. k \<le> i \<and> i < n \<longrightarrow> S' ! i = E' ! (i - 1) + cs ! i \<and> E' ! i = E' ! (i - 1) + ss ! i)"
proof (induction "n - k" arbitrary: k S E)
  case 0
  then show ?case by simp
next
  case (Suc d)
  then have kn: "k < n" by simp
  let ?S = "S @ [E ! (k - 1) + cs ! k]"
  let ?E = "E @ [E ! (k - 1) + ss ! k]"
  have step: "cumulative_loop cs ss [k..<n] (S, E) = cumulative_loop cs ss [Suc k..<n] (?S, ?E)"
    using kn Suc.prems by (simp add: upt_conv_Cons Let_def)
  have "\<exists>S' E'. cumulative_loop cs ss [Suc k..<n] (?S, ?E) = Inr (S', E')
     \<and> length S' = n \<and> length E' = n \<and> take (Suc k) S' = ?S \<and> take (Suc k) E' = ?E
     \<and> (\<forall>i. Suc k \<le> i \<and> i < n \<longrightarrow> S' ! i = E' ! (i - 1) + cs ! i \<and> E' ! i = E' ! (i - 1) + ss ! i)"
    using Suc.hyps(2) kn Suc.prems by (intro Suc.hyps(1)) simp_all
  then obtain S' E' where r: "cumulative_loop cs ss [Suc k..<n] (?S, ?E) = Inr (S', E')"
    and l: "length S' = n" "length E' = n"
    and t: "take (Suc k) S' = ?S" "take (Suc k) E' = ?E"
    and rec: "\<forall>i. Suc k \<le> i \<and> i < n \<longrightarrow> S' ! i = E' ! (i - 1) + cs ! i \<and> E' ! i = E' ! (i - 1) + ss ! i"
    by blast
  have tS: "take k S' = S"
  proof -
    have "take k S' = take k (take (Suc k) S')" by (simp add: min_def)
    also have "\<dots> = S" using t(1) Suc.prems by simp
    finally show ?thesis .
  qed
  have tE: "take k E' = E"
  proof -
    have "take k E' = take k (take (Suc k) E')" by (simp add: min_def)
    also have "\<dots> = E" using t(2) Suc.prems by simp
    finally show ?thesis .
  qed
  have Sk: "S' ! k = E ! (k - 1) + cs ! k"
  proof -
    have "S' ! k = take (Suc k) S' ! k" by simp
    also have "\<dots> = ?S ! k" using t(1) by simp
    also have "\<dots> = E ! (k - 1) + cs ! k" using Suc.prems by (simp add: nth_append)
    finally show ?thesis .
  qed
  have Ek: "E' ! k = E ! (k - 1) + ss ! k"
  proof -
    have "E' ! k = take (Suc k) E' ! k" by simp
    also have "\<dots> = ?E ! k" using t(2) by simp
    also have "\<dots> = E ! (k - 1) + ss ! k" using Suc.prems by (simp add: nth_append)
    finally show ?thesis .
  qed
  have Ep: "E' ! (k - 1) = E ! (k - 1)"
  proof -
    have "E' ! (k - 1) = take k E' ! (k - 1)" using Suc.prems by simp
    then show ?thesis using tE by simp
  qed
  have "\<forall>i. k \<le> i \<and> i < n \<longrightarrow> S' ! i = E' ! (i - 1) + cs ! i \<and> E' ! i = E' ! (i - 1) + ss ! i"
  proof (intro allI impI)
    fix i assume a: "k \<le> i \<and> i < n"
    show "S' ! i = E' ! (i - 1) + cs ! i \<and> E' ! i = E' ! (i - 1) + ss ! i"
    proof (cases "i = k")
      case True
      then show ?thesis using Sk Ek Ep by simp
    next
      case False
      then have "Suc k \<le> i \<and> i < n" using a by simp
      then show ?thesis using rec by blast
    qed
  qed
  then show ?case using step r l tS tE by simp
qed

lemma compute_offsets_table:
  assumes "cs \<noteq> []" and "length cs \<le> length ss"
  shows "\<exists>S E. compute_offsets cs ss = Inr (S, E)
     \<and> length S = length cs \<and> length E = length cs
     \<and> S ! 0 = cs ! 0 \<and> E ! 0 = ss ! 0
     \<and> (\<forall>i. 1 \<le> i \<and> i < length cs \<longrightarrow> S ! i = E ! (i - 1) + cs ! i \<and> E ! i = E ! (i - 1) + ss ! i)"
proof -
  have ne: "ss \<noteq> []" using assms by auto
  have "\<exists>S' E'. cumulative_loop cs ss [1..<length cs] ([cs ! 0], [ss ! 0]) = Inr (S', E')
     \<and> length S' = length cs \<and> length E' = length cs \<and> take 1 S' = [cs ! 0] \<and> take 1 E' = [ss ! 0]
     \<and> (\<forall>i. 1 \<le> i \<and> i < length cs \<longrightarrow> S' ! i = E' ! (i - 1) + cs ! i \<and> E' ! i = E' ! (i - 1) + ss ! i)"
    using assms by (intro cumulative_loop_inv) (simp_all add: Suc_leI)
  then obtain S E where r: "cumulative_loop cs ss [1..<length cs] ([cs ! 0], [ss ! 0]) = Inr (S, E)"
    and l: "length S = length cs" "length E = length cs"
    and t: "take 1 S = [cs ! 0]" "take 1 E = [ss ! 0]"
    and rec: "\<forall>i. 1 \<le> i \<and> i < length cs \<longrightarrow> S ! i = E ! (i - 1) + cs ! i \<and> E ! i = E ! (i - 1) + ss ! i"
    by blast
  have "S ! 0 = cs ! 0" using t(1) by (cases S) simp_all
  moreover have "E ! 0 = ss ! 0" using t(2) by (cases E) simp_all
  ultimately show ?thesis using r l rec assms ne by (simp add: compute_offsets_def)
qed

lemma starting_idx_of_shapes:
  "\<forall>t\<in>set input_embeds. shape t \<noteq> [] \<Longrightarrow>
   starting_idx_of input_embeds = Inr (map (\<lambda>t. int (shape t ! 0)) input_embeds)"
  by (induction input_embeds) (simp_all add: shape_at_def)

lemma offsets_difference:
  assumes "length S = n" and "length E = n" and "0 < n"
    and "S ! 0 = cs ! 0" and "E ! 0 = ss ! 0"
    and "\<forall>i. 1 \<le> i \<and> i < n \<longrightarrow> S ! i = E ! (i - 1) + cs ! i \<and> E ! i = E ! (i - 1) + ss ! i"
    and "i < n"
  shows "E ! i - S ! i = (ss ! i :: int) - cs ! i"
proof (cases "i = 0")
  case True
  then show ?thesis using assms by simp
next
  case False
  then have "1 \<le> i \<and> i < n" using assms by simp
  then have "S ! i = E ! (i - 1) + cs ! i \<and> E ! i = E ! (i - 1) + ss ! i" using assms(6) by blast
  then show ?thesis by simp
qed

lemma ids_for_unpacking_of_nth:
  "length S = n \<Longrightarrow> length E = n \<Longrightarrow> i < n \<Longrightarrow> ids_for_unpacking_of S E ! i = E ! i - S ! i"
  by (simp add: ids_for_unpacking_of_def)

lemma length_ids_for_unpacking_of:
  "length S = n \<Longrightarrow> length E = n \<Longrightarrow> length (ids_for_unpacking_of S E) = n"
  by (simp add: ids_for_unpacking_of_def)

text \<open>
  Claim C1. For a per-request bundle of \<open>N \<ge> 1\<close> conditioning tensors with
  conditioning lengths \<open>c\<^sub>i\<close> (their \<^verbatim>\<open>shape[0]\<close>) and sequence lengths \<open>s\<^sub>i\<close>, the
  alignment engine returns an offset table with \<open>start\<^sub>0 = c\<^sub>0\<close>, \<open>end\<^sub>0 = s\<^sub>0\<close>,
  and for \<open>i \<ge> 1\<close>, \<open>start\<^sub>i = end\<^sub>i\<^sub>-\<^sub>1 + c\<^sub>i\<close> and \<open>end\<^sub>i = end\<^sub>i\<^sub>-\<^sub>1 + s\<^sub>i\<close>; hence
  \<open>end\<^sub>i - start\<^sub>i = s\<^sub>i - c\<^sub>i\<close> for every request. For conditioning lengths
  \<open>[3, 2]\<close> and sequence lengths \<open>[5, 4]\<close> the offsets are \<open>(3, 5)\<close> and \<open>(7, 9)\<close> and
  the audio-token counts are \<open>[2, 2]\<close>.
\<close>

theorem offset_table_recurrence:
  assumes "input_embeds \<noteq> []"
    and "length lens = length input_embeds"
    and "\<forall>t\<in>set input_embeds. shape t \<noteq> []"
  shows "(\<exists>S E. align input_embeds lens = Inr (S, E)
       \<and> length S = length input_embeds \<and> length E = length input_embeds
       \<and> S ! 0 = int (shape (input_embeds ! 0) ! 0) \<and> E ! 0 = lens ! 0
       \<and> (\<forall>i. 1 \<le> i \<and> i < length input_embeds \<longrightarrow>
             S ! i = E ! (i - 1) + int (shape (input_embeds ! i) ! 0)
           \<and> E ! i = E ! (i - 1) + lens ! i)
       \<and> (\<forall>i < length input_embeds.
             E ! i - S ! i = lens ! i - int (shape (input_embeds ! i) ! 0)
           \<and> ids_for_unpacking_of S E ! i = lens ! i - int (shape (input_embeds ! i) ! 0)))
     \<and> align [\<lparr>shape = [3, d], rows = r0\<rparr>, \<lparr>shape = [2, d], rows = r1\<rparr>] [5, 4]
         = Inr ([3, 7], [5, 9])
     \<and> ids_for_unpacking_of [3, 7] [5, 9] = [2, 2]"
proof -
  let ?cs = "map (\<lambda>t. int (shape t ! 0)) input_embeds"
  let ?n = "length input_embeds"
  have al: "align input_embeds lens = compute_offsets ?cs lens"
    using assms(3) by (simp add: align_def starting_idx_of_shapes)
  have "\<exists>S E. compute_offsets ?cs lens = Inr (S, E)
     \<and> length S = length ?cs \<and> length E = length ?cs
     \<and> S ! 0 = ?cs ! 0 \<and> E ! 0 = lens ! 0
     \<and> (\<forall>i. 1 \<le> i \<and> i < length ?cs \<longrightarrow> S ! i = E ! (i - 1) + ?cs ! i \<and> E ! i = E ! (i - 1) + lens ! i)"
    using assms by (intro compute_offsets_table) simp_all
  then obtain S E where r: "compute_offsets ?cs lens = Inr (S, E)"
    and l: "length S = ?n" "length E = ?n"
    and z: "S ! 0 = ?cs ! 0" "E ! 0 = lens ! 0"
    and rec: "\<forall>i. 1 \<le> i \<and> i < ?n \<longrightarrow> S ! i = E ! (i - 1) + ?cs ! i \<and> E ! i = E ! (i - 1) + lens ! i"
    by auto
  have pos: "0 < ?n" using assms(1) by simp
  have z0: "S ! 0 = int (shape (input_embeds ! 0) ! 0)" using z(1) pos by simp
  have rec': "\<forall>i. 1 \<le> i \<and> i < ?n \<longrightarrow>
      S ! i = E ! (i - 1) + int (shape (input_embeds ! i) ! 0) \<and> E ! i = E ! (i - 1) + lens ! i"
    using rec by simp
  have diff: "\<forall>i < ?n. E ! i - S ! i = lens ! i - int (shape (input_embeds ! i) ! 0)"
  proof (intro allI impI)
    fix i assume i: "i < ?n"
    have "E ! i - S ! i = lens ! i - ?cs ! i"
      using l pos z rec i by (rule offsets_difference)
    then show "E ! i - S ! i = lens ! i - int (shape (input_embeds ! i) ! 0)" using i by simp
  qed
  have unp: "\<forall>i < ?n. ids_for_unpacking_of S E ! i = lens ! i - int (shape (input_embeds ! i) ! 0)"
    using diff l by (simp add: ids_for_unpacking_of_nth)
  have general: "\<exists>S E. align input_embeds lens = Inr (S, E)
       \<and> length S = ?n \<and> length E = ?n
       \<and> S ! 0 = int (shape (input_embeds ! 0) ! 0) \<and> E ! 0 = lens ! 0
       \<and> (\<forall>i. 1 \<le> i \<and> i < ?n \<longrightarrow>
             S ! i = E ! (i - 1) + int (shape (input_embeds ! i) ! 0)
           \<and> E ! i = E ! (i - 1) + lens ! i)
       \<and> (\<forall>i < ?n.
             E ! i - S ! i = lens ! i - int (shape (input_embeds ! i) ! 0)
           \<and> ids_for_unpacking_of S E ! i = lens ! i - int (shape (input_embeds ! i) ! 0))"
    using al r l z0 z(2) rec' diff unp by auto
  have example: "align [\<lparr>shape = [3, d], rows = r0\<rparr>, \<lparr>shape = [2, d], rows = r1\<rparr>] [5, 4]
         = Inr ([3, 7], [5, 9])"
    by (simp add: align_def shape_at_def compute_offsets_def)
  have counts: "ids_for_unpacking_of [3, 7] [5, 9] = [2, 2]"
    by (simp add: ids_for_unpacking_of_def)
  show ?thesis using general example counts by blast
qed

theorem offset_table_recurrence_witness:
  "align [\<lparr>shape = [3, 1], rows = [0, 0, 0 :: int]\<rparr>, \<lparr>shape = [2, 1], rows = [0, 0]\<rparr>] [5, 4]
     = Inr ([3, 7], [5, 9])
   \<and> ids_for_unpacking_of [3, 7] [5, 9] = [2, 2]"
proof -
  let ?e = "[\<lparr>shape = [3, 1], rows = [0, 0, 0 :: int]\<rparr>, \<lparr>shape = [2, 1], rows = [0, 0]\<rparr>]"
  have h1: "?e \<noteq> []" by simp
  have h2: "length [5, 4 :: int] = length ?e" by simp
  have h3: "\<forall>t\<in>set ?e. shape t \<noteq> []" by simp
  show ?thesis
    using offset_table_recurrence [OF h1 h2 h3, of 1 "[0, 0, 0]" "[0, 0]"] by blast
qed

section \<open>Properties of the phase classification\<close>

text \<open>
  Claim C4. Every call has exactly one phase: \<open>LOGITS_ONLY\<close> if the explicit flag
  is truthy (a boolean as it is, a single-element tensor by the truth value of its
  element, any other tensor if any element is true); otherwise \<open>PRIMING\<close> if the
  packed tensor is longer than 1 and every token is the filler or the
  start-of-audio token; otherwise \<open>INCREMENTAL\<close>. A packed tensor of length 1 is
  never \<open>PRIMING\<close>.
\<close>

theorem phase_classification:
  "classify input_ids explicit_flag =
     (if check_is_logits_only_mode explicit_flag then LOGITS_ONLY
      else if length input_ids > 1
              \<and> (\<forall>t \<in> set input_ids. t = PAD_FILLER_ID \<or> t = START_AUDIO_TOKEN_ID) then PRIMING
      else INCREMENTAL)
   \<and> check_is_logits_only_mode (FlagBool b) = b
   \<and> check_is_logits_only_mode (FlagTensor [x]) = x
   \<and> (length xs \<noteq> 1 \<longrightarrow> check_is_logits_only_mode (FlagTensor xs) = (\<exists>y \<in> set xs. y))
   \<and> (length input_ids = 1 \<longrightarrow> classify input_ids explicit_flag \<noteq> PRIMING)"
  by (auto simp: classify_def phase_of_def is_first_iteration_of_def list_all_iff list_ex_iff)

theorem phase_classification_witness:
  "classify [1, 1, 1024] (FlagBool False) = PRIMING
   \<and> classify [1, 1, 1024] (FlagTensor [False, True]) = LOGITS_ONLY
   \<and> classify [1, 7, 1024] (FlagTensor [False]) = INCREMENTAL
   \<and> classify [1024] (FlagOther False) \<noteq> PRIMING"
  using phase_classification [of "[1, 1, 1024]" "FlagBool False" False False "[]"]
    phase_classification [of "[1, 1, 1024]" "FlagTensor [False, True]" False False "[False, True]"]
    phase_classification [of "[1, 7, 1024]" "FlagTensor [False]" False False "[]"]
    phase_classification [of "[1024]" "FlagOther False" False False "[]"]
  by (simp add: PAD_FILLER_ID_def START_AUDIO_TOKEN_ID_def)

section \<open>Properties of the hidden-state assembly\<close>

lemma view_all_views:
  "\<forall>t \<in> set ts. shape t \<noteq> [] \<and> last (shape t) \<noteq> 0 \<Longrightarrow>
   view_all ts =
     Inr (map (\<lambda>t. \<lparr>shape = [prod_list (butlast (shape t)), last (shape t)], rows = rows t\<rparr>) ts)"
  by (induction ts) (simp_all add: view2d_def)

lemma cat_dim0_two_dimensional:
  assumes "ts \<noteq> []" and "\<forall>u \<in> set ts. \<exists>n. shape u = [n, d]"
  shows "\<exists>n. cat_dim0 ts = Inr \<lparr>shape = [n, d], rows = concat (map rows ts)\<rparr>"
proof -
  obtain t rest where ts: "ts = t # rest" using assms(1) by (cases ts) auto
  have all: "list_all (\<lambda>u. shape u \<noteq> [] \<and> tl (shape u) = tl (shape t)) ts"
    unfolding list_all_iff
  proof
    fix u assume "u \<in> set ts"
    then obtain n where u: "shape u = [n, d]" using assms(2) by blast
    obtain k where "shape t = [k, d]" using assms(2) ts by auto
    then show "shape u \<noteq> [] \<and> tl (shape u) = tl (shape t)" using u by simp
  qed
  obtain k where "shape t = [k, d]" using assms(2) ts by auto
  then show ?thesis using all ts by (simp add: cat_dim0_def)
qed

lemma rows_of_pairs:
  "concat (map rows (concat (map (\<lambda>(cond, hid). [cond, hid]) ps)))
     = concat (map (\<lambda>(cond, hid). rows cond @ rows hid) ps)"
  by (induction ps) auto

lemma pairs_with_same:
  "concat (map (\<lambda>(cond, hid). [cond, hid]) (zip vs (replicate (length vs) x)))
     = concat (map (\<lambda>v. [v, x]) vs)"
  by (induction vs) auto

lemma priming_hidden_states:
  "tensor_add (audio_inputs_embeds_of m True [tok]) (wpe_forward m (Suc 0))
     = Inr \<lparr>shape = [Suc 0, embed_dim m], rows = [wte m tok + wpe_emb m 0]\<rparr>"
  by (simp add: tensor_add_def audio_inputs_embeds_of_def wpe_forward_def squeeze0_def
      broadcast_shape_def)

lemma priming_select:
  "input_ids \<noteq> [] \<Longrightarrow>
   select_inputs input_ids position_ids attn input_embeds True False
     = Inr (True, [last input_ids], position_ids, None)"
  by (simp add: select_inputs_def phase_of_def)

lemma py_slice_nat: "py_slice xs (int a) (int b) = drop a (take b xs)"
proof -
  have "take (min b (length xs)) xs = take b xs" by (simp add: min_def)
  moreover have "drop (min a (length xs)) (take b xs) = drop a (take b xs)"
    by (simp add: min_def)
  ultimately show ?thesis by (simp add: py_slice_def py_bound_def)
qed

lemma sum_list_int: "sum_list (map (\<lambda>x. int (f x)) xs) = int (sum_list (map f xs))"
  by (induction xs) simp_all

lemma offsets_closed_form:
  assumes "length S = n" and "length E = n" and "n \<le> length ss"
    and "S ! 0 = cs ! 0" and "E ! 0 = ss ! 0"
    and "\<forall>i. 1 \<le> i \<and> i < n \<longrightarrow> S ! i = E ! (i - 1) + cs ! i \<and> E ! i = E ! (i - 1) + ss ! i"
  shows "i < n \<Longrightarrow> E ! i = sum_list (take (Suc i) ss) \<and> S ! i = sum_list (take i ss) + (cs ! i :: int)"
proof (induction i)
  case 0
  then have "ss \<noteq> []" using assms(3) by auto
  then have "take (Suc 0) ss = [ss ! 0]" by (cases ss) simp_all
  then show ?case using assms(4,5) by simp
next
  case (Suc i)
  then have i: "i < n" by simp
  have E: "E ! i = sum_list (take (Suc i) ss)" using Suc.IH i by simp
  have rec: "S ! Suc i = E ! i + cs ! Suc i \<and> E ! Suc i = E ! i + ss ! Suc i"
    using assms(6) Suc.prems by (metis One_nat_def diff_Suc_1 le_add1 plus_1_eq_Suc)
  have "Suc i < length ss" using Suc.prems assms(3) by simp
  then have "take (Suc (Suc i)) ss = take (Suc i) ss @ [ss ! Suc i]"
    by (simp add: take_Suc_conv_app_nth)
  then show ?case using rec E by simp
qed

lemma packed_slice:
  assumes "i < length xs"
  shows "drop (sum_list (map (\<lambda>x. length (p x) + length (a x)) (take i xs)) + length (p (xs ! i)))
           (take (sum_list (map (\<lambda>x. length (p x) + length (a x)) (take i xs))
                  + length (p (xs ! i)) + length (a (xs ! i)))
              (concat (map (\<lambda>x. p x @ a x) xs) @ extra))
         = a (xs ! i)"
proof -
  let ?f = "\<lambda>x. p x @ a x"
  let ?A = "concat (map ?f (take i xs))"
  let ?R = "concat (map ?f (drop (Suc i) xs)) @ extra"
  have split: "xs = take i xs @ xs ! i # drop (Suc i) xs"
    using assms by (rule id_take_nth_drop)
  have "concat (map ?f xs) = concat (map ?f (take i xs @ xs ! i # drop (Suc i) xs))"
    using split by simp
  then have packed: "concat (map ?f xs) @ extra = ?A @ p (xs ! i) @ a (xs ! i) @ ?R"
    by simp
  have len: "length ?A = sum_list (map (\<lambda>x. length (p x) + length (a x)) (take i xs))"
    by (simp add: length_concat comp_def)
  show ?thesis unfolding packed using len by simp
qed

lemma align_packed:
  fixes rs :: "'e request list"
  assumes "rs \<noteq> []" and "\<forall>r \<in> set rs. request_ok m r"
  shows "\<exists>S E. align (map req_cond rs) (packed_seq_lens rs) = Inr (S, E)
     \<and> length S = length rs \<and> length E = length rs
     \<and> (\<forall>i < length rs.
          S ! i = int (sum_list (map (\<lambda>r. length (req_placeholder r) + length (req_audio r)) (take i rs))
                       + length (req_placeholder (rs ! i)))
        \<and> E ! i = int (sum_list (map (\<lambda>r. length (req_placeholder r) + length (req_audio r)) (take i rs))
                       + length (req_placeholder (rs ! i)) + length (req_audio (rs ! i))))"
proof -
  let ?w = "\<lambda>r. length (req_placeholder r) + length (req_audio r)"
  let ?cs = "map (\<lambda>r. int (length (req_placeholder r))) rs"
  let ?ss = "packed_seq_lens rs"
  have sh: "\<forall>t \<in> set (map req_cond rs). shape t \<noteq> []"
    using assms(2) by (auto simp: request_ok_def)
  have "map (\<lambda>t. int (shape t ! 0)) (map req_cond rs) = ?cs"
    using assms(2) by (simp add: request_ok_def)
  then have st: "starting_idx_of (map req_cond rs) = Inr ?cs"
    using starting_idx_of_shapes [OF sh] by simp
  have al: "align (map req_cond rs) ?ss = compute_offsets ?cs ?ss"
    using st by (simp add: align_def)
  have "\<exists>S E. compute_offsets ?cs ?ss = Inr (S, E)
     \<and> length S = length ?cs \<and> length E = length ?cs
     \<and> S ! 0 = ?cs ! 0 \<and> E ! 0 = ?ss ! 0
     \<and> (\<forall>i. 1 \<le> i \<and> i < length ?cs \<longrightarrow> S ! i = E ! (i - 1) + ?cs ! i \<and> E ! i = E ! (i - 1) + ?ss ! i)"
    using assms(1) by (intro compute_offsets_table) (simp_all add: packed_seq_lens_def)
  then obtain S E where r: "compute_offsets ?cs ?ss = Inr (S, E)"
    and l: "length S = length rs" "length E = length rs"
    and z: "S ! 0 = ?cs ! 0" "E ! 0 = ?ss ! 0"
    and rec: "\<forall>i. 1 \<le> i \<and> i < length rs \<longrightarrow> S ! i = E ! (i - 1) + ?cs ! i \<and> E ! i = E ! (i - 1) + ?ss ! i"
    by auto
  have n: "length rs \<le> length ?ss" by (simp add: packed_seq_lens_def)
  have closed: "S ! i = int (sum_list (map ?w (take i rs)) + length (req_placeholder (rs ! i)))
        \<and> E ! i = int (sum_list (map ?w (take i rs)) + length (req_placeholder (rs ! i))
                       + length (req_audio (rs ! i)))" if i: "i < length rs" for i
  proof -
    have c: "E ! i = sum_list (take (Suc i) ?ss) \<and> S ! i = sum_list (take i ?ss) + ?cs ! i"
      using l n z rec i by (rule offsets_closed_form)
    have t: "sum_list (take i ?ss) = int (sum_list (map ?w (take i rs)))"
      by (simp only: packed_seq_lens_def take_map sum_list_int)
    have "take (Suc i) rs = take i rs @ [rs ! i]" using i by (simp add: take_Suc_conv_app_nth)
    then have "map ?w (take (Suc i) rs) = map ?w (take i rs) @ [?w (rs ! i)]" by simp
    then have "sum_list (map ?w (take (Suc i) rs)) = sum_list (map ?w (take i rs)) + ?w (rs ! i)"
      by simp
    moreover have "sum_list (take (Suc i) ?ss) = int (sum_list (map ?w (take (Suc i) rs)))"
      by (simp only: packed_seq_lens_def take_map sum_list_int)
    ultimately have e: "sum_list (take (Suc i) ?ss)
        = int (sum_list (map ?w (take i rs)) + length (req_placeholder (rs ! i))
               + length (req_audio (rs ! i)))"
      by simp
    show ?thesis using c t e i by simp
  qed
  show ?thesis using al r l closed by auto
qed

lemma slices_of_packed:
  assumes "length S = length rs" and "length E = length rs"
    and "\<forall>i < length rs.
          S ! i = int (sum_list (map (\<lambda>r. length (p r) + length (a r)) (take i rs)) + length (p (rs ! i)))
        \<and> E ! i = int (sum_list (map (\<lambda>r. length (p r) + length (a r)) (take i rs))
                       + length (p (rs ! i)) + length (a (rs ! i)))"
  shows "map (\<lambda>(start, end). py_slice (concat (map (\<lambda>r. p r @ a r) rs) @ extra) start end) (zip S E)
       = map a rs"
proof (rule nth_equalityI)
  show "length (map (\<lambda>(start, end). py_slice (concat (map (\<lambda>r. p r @ a r) rs) @ extra) start end) (zip S E))
      = length (map a rs)"
    using assms(1,2) by simp
next
  fix i
  assume "i < length (map (\<lambda>(start, end). py_slice (concat (map (\<lambda>r. p r @ a r) rs) @ extra) start end) (zip S E))"
  then have i: "i < length rs" using assms(1,2) by simp
  have "py_slice (concat (map (\<lambda>r. p r @ a r) rs) @ extra) (S ! i) (E ! i) = a (rs ! i)"
    using assms(3) i by (simp only: py_slice_nat packed_slice)
  then show "map (\<lambda>(start, end). py_slice (concat (map (\<lambda>r. p r @ a r) rs) @ extra) start end) (zip S E) ! i
      = map a rs ! i"
    using i assms(1,2) by simp
qed

lemma select_packed:
  fixes rs :: "'e request list"
  assumes "rs \<noteq> []" and "\<forall>r \<in> set rs. request_ok m r" and "seq_lens attn = packed_seq_lens rs"
  shows "select_inputs (packed_input_ids rs @ more_ids) (packed_position_ids rs @ more_positions)
           attn (CondList (map req_cond rs)) is_first_iteration True
       = Inr (True, map fst (concat (map req_audio rs)), map snd (concat (map req_audio rs)),
              Some (map (\<lambda>r. int (length (req_audio r))) rs))"
proof -
  let ?w = "\<lambda>r. length (req_placeholder r) + length (req_audio r)"
  obtain S E where al: "align (map req_cond rs) (packed_seq_lens rs) = Inr (S, E)"
    and l: "length S = length rs" "length E = length rs"
    and c: "\<forall>i < length rs.
          S ! i = int (sum_list (map ?w (take i rs)) + length (req_placeholder (rs ! i)))
        \<and> E ! i = int (sum_list (map ?w (take i rs)) + length (req_placeholder (rs ! i))
                       + length (req_audio (rs ! i)))"
    using align_packed [OF assms(1,2)] by blast
  have c1: "\<forall>i < length rs.
          S ! i = int (sum_list (map (\<lambda>r. length (map fst (req_placeholder r)) + length (map fst (req_audio r))) (take i rs))
                       + length (map fst (req_placeholder (rs ! i))))
        \<and> E ! i = int (sum_list (map (\<lambda>r. length (map fst (req_placeholder r)) + length (map fst (req_audio r))) (take i rs))
                       + length (map fst (req_placeholder (rs ! i))) + length (map fst (req_audio (rs ! i))))"
    using c by simp
  have c2: "\<forall>i < length rs.
          S ! i = int (sum_list (map (\<lambda>r. length (map snd (req_placeholder r)) + length (map snd (req_audio r))) (take i rs))
                       + length (map snd (req_placeholder (rs ! i))))
        \<and> E ! i = int (sum_list (map (\<lambda>r. length (map snd (req_placeholder r)) + length (map snd (req_audio r))) (take i rs))
                       + length (map snd (req_placeholder (rs ! i))) + length (map snd (req_audio (rs ! i))))"
    using c by simp
  have ids: "map (\<lambda>(start, end). py_slice (packed_input_ids rs @ more_ids) start end) (zip S E)
      = map (\<lambda>r. map fst (req_audio r)) rs"
    unfolding packed_input_ids_def using l c1 by (rule slices_of_packed)
  have pos: "map (\<lambda>(start, end). py_slice (packed_position_ids rs @ more_positions) start end) (zip S E)
      = map (\<lambda>r. map snd (req_audio r)) rs"
    unfolding packed_position_ids_def using l c2 by (rule slices_of_packed)
  have unp: "ids_for_unpacking_of S E = map (\<lambda>r. int (length (req_audio r))) rs"
  proof (rule nth_equalityI)
    show "length (ids_for_unpacking_of S E) = length (map (\<lambda>r. int (length (req_audio r))) rs)"
      using l by (simp add: ids_for_unpacking_of_def)
  next
    fix i assume "i < length (ids_for_unpacking_of S E)"
    then have i: "i < length rs" using l by (simp add: ids_for_unpacking_of_def)
    have "ids_for_unpacking_of S E ! i = E ! i - S ! i"
      using l i by (simp add: ids_for_unpacking_of_def)
    also have "\<dots> = int (length (req_audio (rs ! i)))" using c i by simp
    finally show "ids_for_unpacking_of S E ! i = map (\<lambda>r. int (length (req_audio r))) rs ! i"
      using i by simp
  qed
  have "select_inputs (packed_input_ids rs @ more_ids) (packed_position_ids rs @ more_positions)
           attn (CondList (map req_cond rs)) is_first_iteration True
      = Inr (True, concat (map (\<lambda>r. map fst (req_audio r)) rs),
             concat (map (\<lambda>r. map snd (req_audio r)) rs),
             Some (map (\<lambda>r. int (length (req_audio r))) rs))"
    using al assms(3) by (simp add: select_inputs_def phase_of_def ids pos unp)
  then show ?thesis by (simp add: map_concat comp_def)
qed

lemma map2_pairs: "map2 f (map g (map fst A)) (map k (map snd A)) = map (\<lambda>(t, p). f (g t) (k p)) A"
  by (induction A) auto

lemma broadcast_same: "broadcast_shape [n, d] [n, d] = Some [n, d]"
  by (simp add: broadcast_shape_def)

lemma broadcast_one: "broadcast_shape [n, d] [Suc 0, d] = Some [n, d]"
  by (simp add: broadcast_shape_def)

lemma tensor_add_one_row:
  assumes "shape a = [n, d]" and "shape b = [Suc 0, d]" and "rows b = [y]"
  shows "tensor_add a b = Inr \<lparr>shape = [n, d], rows = map (\<lambda>x. x + y) (rows a)\<rparr>"
proof (cases "rows a")
  case Nil
  then show ?thesis by (simp add: tensor_add_def assms broadcast_one)
next
  case (Cons x xs)
  then show ?thesis by (cases xs) (simp_all add: tensor_add_def assms broadcast_one)
qed

lemma logits_hidden_states:
  fixes m :: "('e::plus) gpt2"
  assumes "is_first_iteration \<or> 2 \<le> length A"
  shows "\<exists>pe. position_embeds_of m is_first_iteration (map snd A) = Inr pe
     \<and> tensor_add (audio_inputs_embeds_of m True (map fst A)) pe
       = Inr \<lparr>shape = [length A, embed_dim m],
              rows = map (\<lambda>(t, p). wte m t + wpe_emb m (if is_first_iteration then 0 else p)) A\<rparr>"
proof (cases is_first_iteration)
  case True
  have pe: "position_embeds_of m is_first_iteration (map snd A)
      = Inr \<lparr>shape = [Suc 0, embed_dim m], rows = [wpe_emb m 0]\<rparr>"
    using True by (simp add: position_embeds_of_def wpe_forward_def)
  have au: "audio_inputs_embeds_of m True (map fst A)
      = \<lparr>shape = [length A, embed_dim m], rows = map (wte m) (map fst A)\<rparr>"
    by (simp add: audio_inputs_embeds_of_def squeeze0_def)
  have "tensor_add (audio_inputs_embeds_of m True (map fst A))
          \<lparr>shape = [Suc 0, embed_dim m], rows = [wpe_emb m 0]\<rparr>
      = Inr \<lparr>shape = [length A, embed_dim m],
             rows = map (\<lambda>x. x + wpe_emb m 0) (rows (audio_inputs_embeds_of m True (map fst A)))\<rparr>"
    by (rule tensor_add_one_row) (simp_all add: au)
  then have "tensor_add (audio_inputs_embeds_of m True (map fst A))
          \<lparr>shape = [Suc 0, embed_dim m], rows = [wpe_emb m 0]\<rparr>
      = Inr \<lparr>shape = [length A, embed_dim m], rows = map (\<lambda>(t, p). wte m t + wpe_emb m 0) A\<rparr>"
    by (simp add: au comp_def case_prod_beta)
  then show ?thesis using pe True by simp
next
  case False
  then have len: "2 \<le> length A" using assms by simp
  have pe: "position_embeds_of m is_first_iteration (map snd A)
      = Inr \<lparr>shape = [length A, embed_dim m], rows = map (wpe_emb m) (map snd A)\<rparr>"
    using False len by (simp add: position_embeds_of_def get_fixed_embedding_def)
  have au: "audio_inputs_embeds_of m True (map fst A)
      = \<lparr>shape = [length A, embed_dim m], rows = map (wte m) (map fst A)\<rparr>"
    by (simp add: audio_inputs_embeds_of_def squeeze0_def)
  have "tensor_add (audio_inputs_embeds_of m True (map fst A))
          \<lparr>shape = [length A, embed_dim m], rows = map (wpe_emb m) (map snd A)\<rparr>
      = Inr \<lparr>shape = [length A, embed_dim m], rows = map (\<lambda>(t, p). wte m t + wpe_emb m p) A\<rparr>"
    unfolding au tensor_add_def by (simp add: broadcast_same map2_pairs del: map_map)
  then show ?thesis using pe False by simp
qed

lemma split_rows_concat: "split_rows (concat (map g rs)) (map (\<lambda>r. length (g r)) rs) = map g rs"
  by (induction rs) simp_all

lemma map2_same: "map2 f (map a rs) (map b rs) = map (\<lambda>r. f (a r) (b r)) rs"
  by (induction rs) simp_all

lemma tensor_split_pieces:
  "tensor_split \<lparr>shape = [length (concat (map g rs)), d], rows = concat (map g rs)\<rparr>
     (map (\<lambda>r. int (length (g r))) rs)
   = Inr (map (\<lambda>r. \<lparr>shape = [length (g r), d], rows = g r\<rparr>) rs)"
proof -
  let ?sizes = "map (\<lambda>r. int (length (g r))) rs"
  have neg: "\<not> list_ex (\<lambda>k. k < 0) ?sizes" by (simp add: list_ex_iff)
  have total: "sum_list ?sizes = int (length (concat (map g rs)))"
    by (simp only: sum_list_int) (simp add: length_concat comp_def)
  have counts: "map (\<lambda>k. nat k * prod_list (butlast [d])) ?sizes = map (\<lambda>r. length (g r)) rs"
    by simp
  have pieces: "map2 (\<lambda>k r. \<lparr>shape = nat k # [d], rows = r\<rparr>) ?sizes (map g rs)
      = map (\<lambda>r. \<lparr>shape = [length (g r), d], rows = g r\<rparr>) rs"
    by (simp only: map2_same) simp
  have "tensor_split \<lparr>shape = [length (concat (map g rs)), d], rows = concat (map g rs)\<rparr> ?sizes
      = Inr (map2 (\<lambda>k r. \<lparr>shape = nat k # [d], rows = r\<rparr>) ?sizes
               (split_rows (concat (map g rs)) (map (\<lambda>k. nat k * prod_list (butlast [d])) ?sizes)))"
    using neg total by (simp add: tensor_split_def)
  then show ?thesis by (simp only: counts split_rows_concat pieces)
qed

lemma concat_conditioning_pieces:
  fixes rs :: "'e request list"
  assumes "rs \<noteq> []" and "\<forall>r \<in> set rs. request_ok m r" and "0 < embed_dim m"
  shows "\<exists>n. concat_conditioning attn (CondList (map req_cond rs))
           (Many (map (\<lambda>r. \<lparr>shape = [length (g r), embed_dim m], rows = g r\<rparr>) rs))
       = Inr \<lparr>shape = [n, embed_dim m], rows = concat (map (\<lambda>r. rows (req_cond r) @ g r) rs)\<rparr>"
proof -
  let ?v = "\<lambda>r. \<lparr>shape = [length (req_placeholder r), embed_dim m], rows = rows (req_cond r)\<rparr>"
  let ?pc = "\<lambda>r. \<lparr>shape = [length (g r), embed_dim m], rows = g r\<rparr>"
  let ?ts = "concat (map (\<lambda>r. [?v r, ?pc r]) rs)"
  have "view_all (map req_cond rs)
      = Inr (map (\<lambda>t. \<lparr>shape = [prod_list (butlast (shape t)), last (shape t)], rows = rows t\<rparr>)
               (map req_cond rs))"
    using assms(2,3) by (intro view_all_views) (auto simp: request_ok_def)
  moreover have "map (\<lambda>t. \<lparr>shape = [prod_list (butlast (shape t)), last (shape t)], rows = rows t\<rparr>)
               (map req_cond rs) = map ?v rs"
    using assms(2) by (simp add: request_ok_def)
  ultimately have views: "view_all (map req_cond rs) = Inr (map ?v rs)" by simp
  have pairs: "concat (map (\<lambda>(cond, hid). [cond, hid]) (zip (map ?v rs) (map ?pc rs))) = ?ts"
    by (induction rs) simp_all
  have cc: "concat_conditioning attn (CondList (map req_cond rs)) (Many (map ?pc rs)) = cat_dim0 ?ts"
    using views pairs by (simp add: concat_conditioning_def)
  have ne: "?ts \<noteq> []" using assms(1) by (cases rs) simp_all
  have two: "\<forall>u \<in> set ?ts. \<exists>n. shape u = [n, embed_dim m]" by auto
  obtain n where cat: "cat_dim0 ?ts = Inr \<lparr>shape = [n, embed_dim m], rows = concat (map rows ?ts)\<rparr>"
    using cat_dim0_two_dimensional [OF ne two] by blast
  have rws: "concat (map rows ?ts) = concat (map (\<lambda>r. rows (req_cond r) @ g r) rs)"
    by (induction rs) simp_all
  show ?thesis using cc cat rws by simp
qed

lemma assemble_packed:
  fixes rs :: "('e::plus) request list"
  assumes "rs \<noteq> []" and "\<forall>r \<in> set rs. request_ok m r" and "seq_lens attn = packed_seq_lens rs"
    and "0 < embed_dim m"
    and "is_first_iteration \<or> 2 \<le> length (concat (map req_audio rs))"
  shows "assemble m (packed_input_ids rs @ more_ids) (packed_position_ids rs @ more_positions)
           attn (CondList (map req_cond rs)) is_first_iteration True
       = Inr (concat (map (\<lambda>r. rows (req_cond r)
                @ map (\<lambda>(t, p). wte m t + wpe_emb m (if is_first_iteration then 0 else p))
                    (req_audio r)) rs))"
proof -
  let ?A = "concat (map req_audio rs)"
  let ?f = "\<lambda>(t, p). wte m t + wpe_emb m (if is_first_iteration then 0 else p)"
  let ?g = "\<lambda>r. map ?f (req_audio r)"
  let ?sizes = "map (\<lambda>r. int (length (req_audio r))) rs"
  have sel: "select_inputs (packed_input_ids rs @ more_ids) (packed_position_ids rs @ more_positions)
           attn (CondList (map req_cond rs)) is_first_iteration True
       = Inr (True, map fst ?A, map snd ?A, Some ?sizes)"
    using assms(1,2,3) by (rule select_packed)
  obtain pe where pe: "position_embeds_of m is_first_iteration (map snd ?A) = Inr pe"
    and add: "tensor_add (audio_inputs_embeds_of m True (map fst ?A)) pe
       = Inr \<lparr>shape = [length ?A, embed_dim m], rows = map ?f ?A\<rparr>"
    using logits_hidden_states [OF assms(5), of m] by blast
  have rows_eq: "map ?f ?A = concat (map ?g rs)" by (simp add: map_concat comp_def)
  have len_eq: "length ?A = length (concat (map ?g rs))"
    by (simp add: length_concat comp_def)
  have sizes_eq: "?sizes = map (\<lambda>r. int (length (?g r))) rs" by simp
  have "tensor_split \<lparr>shape = [length (concat (map ?g rs)), embed_dim m], rows = concat (map ?g rs)\<rparr>
     (map (\<lambda>r. int (length (?g r))) rs)
   = Inr (map (\<lambda>r. \<lparr>shape = [length (?g r), embed_dim m], rows = ?g r\<rparr>) rs)"
    by (rule tensor_split_pieces)
  then have split: "tensor_split \<lparr>shape = [length ?A, embed_dim m], rows = map ?f ?A\<rparr> ?sizes
      = Inr (map (\<lambda>r. \<lparr>shape = [length (?g r), embed_dim m], rows = ?g r\<rparr>) rs)"
    by (simp only: rows_eq len_eq sizes_eq)
  have unp: "unpack_hidden (CondList (map req_cond rs)) True (Some ?sizes)
        \<lparr>shape = [length ?A, embed_dim m], rows = map ?f ?A\<rparr>
      = Inr (Many (map (\<lambda>r. \<lparr>shape = [length (?g r), embed_dim m], rows = ?g r\<rparr>) rs))"
    using split by (simp add: unpack_hidden_def)
  obtain n where cc: "concat_conditioning attn (CondList (map req_cond rs))
           (Many (map (\<lambda>r. \<lparr>shape = [length (?g r), embed_dim m], rows = ?g r\<rparr>) rs))
       = Inr \<lparr>shape = [n, embed_dim m], rows = concat (map (\<lambda>r. rows (req_cond r) @ ?g r) rs)\<rparr>"
    using concat_conditioning_pieces [OF assms(1,2,4), of attn ?g] by blast
  show ?thesis
    unfolding assemble_def sel using pe add unp cc assms(4)
    by (simp add: flatten_hidden_def)
qed

text \<open>
  The reconstruction on batches with at least two audio tokens, or with the
  first-iteration flag set. On a packed batch that holds, request after request,
  the filler tokens of the conditioning and then the audio tokens, slicing the
  packed token and position tensors with the computed offsets gives exactly the
  audio tokens and audio positions of each request, and the assembled output is,
  request after request in batch order, the conditioning rows followed by the
  embeddings of the request's audio tokens. The embedding of an audio token is its
  token embedding plus the positional embedding of its position (of position 0
  when the first-iteration flag is set as well).
\<close>

lemma logits_only_reconstruction:
  fixes rs :: "('e::plus) request list"
  assumes "rs \<noteq> []"
    and "\<forall>r \<in> set rs. request_ok m r"
    and "seq_lens attn = packed_seq_lens rs"
    and "0 < embed_dim m"
  shows "(\<exists>S E. align (map req_cond rs) (seq_lens attn) = Inr (S, E)
           \<and> length S = length rs \<and> length E = length rs
           \<and> (\<forall>i < length rs.
                 py_slice (packed_input_ids rs) (S ! i) (E ! i) = map fst (req_audio (rs ! i))
               \<and> py_slice (packed_position_ids rs) (S ! i) (E ! i) = map snd (req_audio (rs ! i))))
     \<and> (is_first_iteration \<or> 2 \<le> length (concat (map req_audio rs)) \<longrightarrow>
          assemble m (packed_input_ids rs) (packed_position_ids rs) attn
            (CondList (map req_cond rs)) is_first_iteration True
          = Inr (concat (map (\<lambda>r. rows (req_cond r)
                   @ map (\<lambda>(t, p). wte m t + wpe_emb m (if is_first_iteration then 0 else p))
                       (req_audio r)) rs)))"
proof -
  let ?w = "\<lambda>r. length (req_placeholder r) + length (req_audio r)"
  obtain S E where al: "align (map req_cond rs) (packed_seq_lens rs) = Inr (S, E)"
    and l: "length S = length rs" "length E = length rs"
    and c: "\<forall>i < length rs.
          S ! i = int (sum_list (map ?w (take i rs)) + length (req_placeholder (rs ! i)))
        \<and> E ! i = int (sum_list (map ?w (take i rs)) + length (req_placeholder (rs ! i))
                       + length (req_audio (rs ! i)))"
    using align_packed [OF assms(1,2)] by blast
  have sl: "py_slice (packed_input_ids rs) (S ! i) (E ! i) = map fst (req_audio (rs ! i))
          \<and> py_slice (packed_position_ids rs) (S ! i) (E ! i) = map snd (req_audio (rs ! i))"
    if i: "i < length rs" for i
  proof -
    have s: "S ! i = int (sum_list (map ?w (take i rs)) + length (req_placeholder (rs ! i)))"
      and e: "E ! i = int (sum_list (map ?w (take i rs)) + length (req_placeholder (rs ! i))
                       + length (req_audio (rs ! i)))"
      using c i by simp_all
    have "py_slice (packed_input_ids rs) (S ! i) (E ! i)
        = drop (sum_list (map ?w (take i rs)) + length (req_placeholder (rs ! i)))
            (take (sum_list (map ?w (take i rs)) + length (req_placeholder (rs ! i))
                   + length (req_audio (rs ! i))) (packed_input_ids rs))"
      by (simp only: s e py_slice_nat)
    also have "\<dots> = map fst (req_audio (rs ! i))"
      using packed_slice [OF i, of "\<lambda>r. map fst (req_placeholder r)" "\<lambda>r. map fst (req_audio r)" "[]"]
      by (simp add: packed_input_ids_def)
    finally have a: "py_slice (packed_input_ids rs) (S ! i) (E ! i) = map fst (req_audio (rs ! i))" .
    have "py_slice (packed_position_ids rs) (S ! i) (E ! i)
        = drop (sum_list (map ?w (take i rs)) + length (req_placeholder (rs ! i)))
            (take (sum_list (map ?w (take i rs)) + length (req_placeholder (rs ! i))
                   + length (req_audio (rs ! i))) (packed_position_ids rs))"
      by (simp only: s e py_slice_nat)
    also have "\<dots> = map snd (req_audio (rs ! i))"
      using packed_slice [OF i, of "\<lambda>r. map snd (req_placeholder r)" "\<lambda>r. map snd (req_audio r)" "[]"]
      by (simp add: packed_position_ids_def)
    finally have b: "py_slice (packed_position_ids rs) (S ! i) (E ! i) = map snd (req_audio (rs ! i))" .
    show ?thesis using a b by simp
  qed
  have first_part: "\<exists>S E. align (map req_cond rs) (seq_lens attn) = Inr (S, E)
           \<and> length S = length rs \<and> length E = length rs
           \<and> (\<forall>i < length rs.
                 py_slice (packed_input_ids rs) (S ! i) (E ! i) = map fst (req_audio (rs ! i))
               \<and> py_slice (packed_position_ids rs) (S ! i) (E ! i) = map snd (req_audio (rs ! i)))"
    using al l sl assms(3) by auto
  have second_part: "assemble m (packed_input_ids rs) (packed_position_ids rs) attn
            (CondList (map req_cond rs)) is_first_iteration True
          = Inr (concat (map (\<lambda>r. rows (req_cond r)
                   @ map (\<lambda>(t, p). wte m t + wpe_emb m (if is_first_iteration then 0 else p))
                       (req_audio r)) rs))"
    if "is_first_iteration \<or> 2 \<le> length (concat (map req_audio rs))"
    using assemble_packed [OF assms(1,2,3,4) that, of "[]" "[]"] by simp
  show ?thesis using first_part second_part by blast
qed

lemma logits_only_reconstruction_example:
  "assemble \<lparr>embed_dim = 1, wte = (\<lambda>t. t), wpe_emb = (\<lambda>p. 100 * p),
             start_layer = 0, end_layer = 0, h = (\<lambda>i x. x), ln_f = (\<lambda>x. x)\<rparr>
     [1, 1, 1, 7, 8, 1, 1, 9, 10] [0, 1, 2, 3, 4, 5, 6, 7, 8]
     \<lparr>seq_lens = [5, 4], num_prefill_tokens = 9\<rparr>
     (CondList [\<lparr>shape = [3, 1], rows = [- 1, - 2, - 3 :: int]\<rparr>, \<lparr>shape = [2, 1], rows = [- 4, - 5]\<rparr>])
     False True
   = Inr [- 1, - 2, - 3, 307, 408, - 4, - 5, 709, 810]"
proof -
  let ?m = "\<lparr>embed_dim = 1, wte = (\<lambda>t. t), wpe_emb = (\<lambda>p. 100 * p),
             start_layer = 0, end_layer = 0, h = (\<lambda>i x. x), ln_f = (\<lambda>x. x)\<rparr> :: int gpt2"
  let ?r0 = "\<lparr>req_cond = \<lparr>shape = [3, 1], rows = [- 1, - 2, - 3 :: int]\<rparr>,
              req_placeholder = [(1, 0), (1, 1), (1, 2)], req_audio = [(7, 3), (8, 4)]\<rparr>"
  let ?r1 = "\<lparr>req_cond = \<lparr>shape = [2, 1], rows = [- 4, - 5 :: int]\<rparr>,
              req_placeholder = [(1, 5), (1, 6)], req_audio = [(9, 7), (10, 8)]\<rparr>"
  let ?attn = "\<lparr>seq_lens = [5, 4], num_prefill_tokens = 9\<rparr>"
  have h1: "[?r0, ?r1] \<noteq> []" by simp
  have h2: "\<forall>r \<in> set [?r0, ?r1]. request_ok ?m r" by (simp add: request_ok_def)
  have h3: "seq_lens ?attn = packed_seq_lens [?r0, ?r1]" by (simp add: packed_seq_lens_def)
  have h4: "0 < embed_dim ?m" by simp
  have h5: "False \<or> 2 \<le> length (concat (map req_audio [?r0, ?r1]))" by simp
  note T = logits_only_reconstruction [OF h1 h2 h3 h4, of False, THEN conjunct2, THEN mp, OF h5]
  then show ?thesis by (simp add: packed_input_ids_def packed_position_ids_def)
qed

text \<open>
  Claim C2: for every logits-only call with a per-request bundle, slicing with the
  computed offsets gives each request's audio tokens, and the assembled output is,
  per request, the conditioning followed by the embeddings of the audio tokens.
  The code breaks it on a batch with a single audio token. For one request with a
  conditioning of 3 rows, three fillers and the audio token 7 at position 3, the
  slices are right (tokens \<open>[7]\<close>, positions \<open>[3]\<close>, sizes \<open>[1]\<close>), but
  \<^verbatim>\<open>get_fixed_embedding\<close> answers a single position with a tensor of shape
  \<open>[1, 1, dim]\<close>, the hidden states become three-dimensional, and \<^verbatim>\<open>torch.cat\<close>
  refuses to join them to the two-dimensional conditioning: the call raises
  instead of returning the conditioning rows and the row \<open>307\<close>. With no audio
  token at all \<^verbatim>\<open>get_fixed_embedding\<close> itself raises.
\<close>

theorem logits_only_single_audio_token_raises:
  "select_inputs [1, 1, 1, 7] [0, 1, 2, 3] \<lparr>seq_lens = [4], num_prefill_tokens = 4\<rparr>
     (CondList [\<lparr>shape = [3, 1], rows = [- 1, - 2, - 3 :: int]\<rparr>]) False True
     = Inr (True, [7], [3], Some [1])
   \<and> get_fixed_embedding \<lparr>embed_dim = 1, wte = (\<lambda>t. t), wpe_emb = (\<lambda>p. 100 * p),
               start_layer = 0, end_layer = 0, h = (\<lambda>i x. x), ln_f = (\<lambda>x. x)\<rparr> [3]
     = Inr \<lparr>shape = [1, 1, 1], rows = [300 :: int]\<rparr>
   \<and> assemble \<lparr>embed_dim = 1, wte = (\<lambda>t. t), wpe_emb = (\<lambda>p. 100 * p),
               start_layer = 0, end_layer = 0, h = (\<lambda>i x. x), ln_f = (\<lambda>x. x)\<rparr>
       [1, 1, 1, 7] [0, 1, 2, 3] \<lparr>seq_lens = [4], num_prefill_tokens = 4\<rparr>
       (CondList [\<lparr>shape = [3, 1], rows = [- 1, - 2, - 3 :: int]\<rparr>]) False True
     = Inl RuntimeError
   \<and> assemble \<lparr>embed_dim = 1, wte = (\<lambda>t. t), wpe_emb = (\<lambda>p. 100 * p),
               start_layer = 0, end_layer = 0, h = (\<lambda>i x. x), ln_f = (\<lambda>x. x)\<rparr>
       [1, 1, 1] [0, 1, 2] \<lparr>seq_lens = [3], num_prefill_tokens = 3\<rparr>
       (CondList [\<lparr>shape = [3, 1], rows = [- 1, - 2, - 3 :: int]\<rparr>]) False True
     = Inl ValueError"
proof -
  have "select_inputs [1, 1, 1, 7] [0, 1, 2, 3] \<lparr>seq_lens = [4], num_prefill_tokens = 4\<rparr>
     (CondList [\<lparr>shape = [3, 1], rows = [- 1, - 2, - 3 :: int]\<rparr>]) False True
     = Inr (True, [7], [3], Some [1])"
    by code_simp
  moreover have "get_fixed_embedding \<lparr>embed_dim = 1, wte = (\<lambda>t. t), wpe_emb = (\<lambda>p. 100 * p),
               start_layer = 0, end_layer = 0, h = (\<lambda>i x. x), ln_f = (\<lambda>x. x)\<rparr> [3]
     = Inr \<lparr>shape = [1, 1, 1], rows = [300 :: int]\<rparr>"
    by (simp add: get_fixed_embedding_def)
  moreover have "assemble \<lparr>embed_dim = 1, wte = (\<lambda>t. t), wpe_emb = (\<lambda>p. 100 * p),
               start_layer = 0, end_layer = 0, h = (\<lambda>i x. x), ln_f = (\<lambda>x. x)\<rparr>
       [1, 1, 1, 7] [0, 1, 2, 3] \<lparr>seq_lens = [4], num_prefill_tokens = 4\<rparr>
       (CondList [\<lparr>shape = [3, 1], rows = [- 1, - 2, - 3 :: int]\<rparr>]) False True
     = Inl RuntimeError"
    by code_simp
  moreover have "assemble \<lparr>embed_dim = 1, wte = (\<lambda>t. t), wpe_emb = (\<lambda>p. 100 * p),
               start_layer = 0, end_layer = 0, h = (\<lambda>i x. x), ln_f = (\<lambda>x. x)\<rparr>
       [1, 1, 1] [0, 1, 2] \<lparr>seq_lens = [3], num_prefill_tokens = 3\<rparr>
       (CondList [\<lparr>shape = [3, 1], rows = [- 1, - 2, - 3 :: int]\<rparr>]) False True
     = Inl ValueError"
    by code_simp
  ultimately show ?thesis by (intro conjI)
qed











text \<open>
  Claim C9. In the priming phase with a per-request list of \<open>N \<ge> 1\<close> conditioning
  tensors, the assembled hidden states are \<open>cond\<^sub>0, h, cond\<^sub>1, h, \<dots>, cond\<^sub>N\<^sub>-\<^sub>1, h\<close>:
  after every conditioning tensor comes the same single row \<open>h\<close>, the embedding of
  the last input token plus the positional embedding of position 0.
\<close>

theorem priming_list_interleaves:
  assumes "input_ids \<noteq> []"
    and "input_embeds \<noteq> []"
    and "\<forall>c \<in> set input_embeds. shape c \<noteq> [] \<and> last (shape c) = embed_dim m"
    and "0 < embed_dim m"
  shows "assemble m input_ids position_ids attn (CondList input_embeds) True False
     = Inr (concat (map (\<lambda>c. rows c @ [wte m (last input_ids) + wpe_emb m 0]) input_embeds))"
proof -
  let ?hid = "\<lparr>shape = [1, embed_dim m], rows = [wte m (last input_ids) + wpe_emb m 0]\<rparr>"
  let ?views = "map (\<lambda>t. \<lparr>shape = [prod_list (butlast (shape t)), last (shape t)], rows = rows t\<rparr>)
                  input_embeds"
  let ?ts = "concat (map (\<lambda>v. [v, ?hid]) ?views)"
  have views: "view_all input_embeds = Inr ?views"
    using assms(3,4) by (intro view_all_views) auto
  have ne: "?ts \<noteq> []"
    using assms(2) by (cases input_embeds) simp_all
  have two: "\<forall>u \<in> set ?ts. \<exists>n. shape u = [n, embed_dim m]"
    using assms(3) by auto
  obtain n where cat: "cat_dim0 ?ts = Inr \<lparr>shape = [n, embed_dim m], rows = concat (map rows ?ts)\<rparr>"
    using cat_dim0_two_dimensional [OF ne two] by blast
  have rws: "concat (map rows ?ts)
      = concat (map (\<lambda>c. rows c @ [wte m (last input_ids) + wpe_emb m 0]) input_embeds)"
    by (induction input_embeds) simp_all
  have "concat_conditioning attn (CondList input_embeds) (One ?hid) = cat_dim0 ?ts"
    using views pairs_with_same [of ?views ?hid] by (simp add: concat_conditioning_def)
  then have cc: "concat_conditioning attn (CondList input_embeds) (One ?hid)
      = Inr \<lparr>shape = [n, embed_dim m],
             rows = concat (map (\<lambda>c. rows c @ [wte m (last input_ids) + wpe_emb m 0]) input_embeds)\<rparr>"
    using cat rws by simp
  show ?thesis
    using assms(1,4) cc
    by (simp add: assemble_def priming_select position_embeds_of_def priming_hidden_states
        unpack_hidden_def flatten_hidden_def)
qed

theorem priming_list_interleaves_witness:
  "assemble \<lparr>embed_dim = 1, wte = (\<lambda>t. t), wpe_emb = (\<lambda>p. 100 * p + 7),
             start_layer = 0, end_layer = 0, h = (\<lambda>i x. x), ln_f = (\<lambda>x. x)\<rparr>
     [1, 1, 1, 1024] [0, 1, 2, 3] \<lparr>seq_lens = [4], num_prefill_tokens = 4\<rparr>
     (CondList [\<lparr>shape = [2, 1], rows = [- 1, - 2 :: int]\<rparr>, \<lparr>shape = [1, 1], rows = [- 3]\<rparr>])
     True False
   = Inr [- 1, - 2, 1031, - 3, 1031]"
proof -
  let ?m = "\<lparr>embed_dim = 1, wte = (\<lambda>t. t), wpe_emb = (\<lambda>p. 100 * p + 7),
             start_layer = 0, end_layer = 0, h = (\<lambda>i x. x), ln_f = (\<lambda>x. x)\<rparr> :: int gpt2"
  let ?embeds = "[\<lparr>shape = [2, 1], rows = [- 1, - 2 :: int]\<rparr>, \<lparr>shape = [1, 1], rows = [- 3]\<rparr>]"
  have h1: "[1, 1, 1, 1024 :: int] \<noteq> []" by simp
  have h2: "?embeds \<noteq> []" by simp
  have h3: "\<forall>c \<in> set ?embeds. shape c \<noteq> [] \<and> last (shape c) = embed_dim ?m" by simp
  have h4: "0 < embed_dim ?m" by simp
  show ?thesis
    using priming_list_interleaves [OF h1 h2 h3 h4, of "[0, 1, 2, 3]"
        "\<lparr>seq_lens = [4], num_prefill_tokens = 4\<rparr>"]
    by simp
qed

text \<open>
  Claim C6. In the priming phase with a single conditioning tensor, the last row
  of the conditioning is dropped exactly when its row count equals
  \<^verbatim>\<open>num_prefill_tokens\<close>: the output is the conditioning rows, without the last one in
  that case and only in that case, followed by the row of the new token. For a
  conditioning with at least one row the output is then one row shorter.
\<close>

theorem priming_drops_trailing_row:
  assumes "input_ids \<noteq> []"
    and "well_shaped t"
    and "last (shape t) = embed_dim m"
    and "0 < embed_dim m"
  shows "assemble m input_ids position_ids attn (CondTensor t) True False
       = Inr ((if int (length (rows t)) = num_prefill_tokens attn then butlast (rows t)
               else rows t) @ [wte m (last input_ids) + wpe_emb m 0])
     \<and> (rows t \<noteq> [] \<longrightarrow>
          (\<exists>out. assemble m input_ids position_ids attn (CondTensor t) True False = Inr out
             \<and> length out = (if int (length (rows t)) = num_prefill_tokens attn
                              then length (rows t) else length (rows t) + 1)))"
proof -
  let ?hid = "\<lparr>shape = [1, embed_dim m], rows = [wte m (last input_ids) + wpe_emb m 0]\<rparr>"
  let ?v = "\<lparr>shape = [length (rows t), embed_dim m], rows = rows t\<rparr>"
  let ?v' = "if int (hd (shape ?v)) = num_prefill_tokens attn then drop_last_row ?v else ?v"
  let ?kept = "if int (length (rows t)) = num_prefill_tokens attn then butlast (rows t) else rows t"
  have view: "view2d t = Inr ?v"
    using assms(2,3,4) by (simp add: view2d_def well_shaped_def)
  have two: "\<forall>u \<in> set [?v', ?hid]. \<exists>n. shape u = [n, embed_dim m]"
    by (simp add: drop_last_row_def)
  obtain n where cat: "cat_dim0 [?v', ?hid]
      = Inr \<lparr>shape = [n, embed_dim m], rows = concat (map rows [?v', ?hid])\<rparr>"
    using cat_dim0_two_dimensional [OF _ two] by blast
  have rws: "concat (map rows [?v', ?hid]) = ?kept @ [wte m (last input_ids) + wpe_emb m 0]"
    by (simp add: drop_last_row_def)
  have cc: "concat_conditioning attn (CondTensor t) (One ?hid)
      = Inr \<lparr>shape = [n, embed_dim m], rows = ?kept @ [wte m (last input_ids) + wpe_emb m 0]\<rparr>"
    using view cat rws by (simp add: concat_conditioning_def Let_def)
  have out: "assemble m input_ids position_ids attn (CondTensor t) True False
       = Inr (?kept @ [wte m (last input_ids) + wpe_emb m 0])"
    using assms(1,4) cc
    by (simp add: assemble_def priming_select position_embeds_of_def priming_hidden_states
        unpack_hidden_def flatten_hidden_def)
  have len: "length (?kept @ [wte m (last input_ids) + wpe_emb m 0])
      = (if int (length (rows t)) = num_prefill_tokens attn
         then length (rows t) else length (rows t) + 1)" if "rows t \<noteq> []"
    using that by simp
  show ?thesis using out len by simp
qed

theorem priming_drops_trailing_row_witness:
  "assemble \<lparr>embed_dim = 1, wte = (\<lambda>t. t), wpe_emb = (\<lambda>p. 100 * p + 7),
             start_layer = 0, end_layer = 0, h = (\<lambda>i x. x), ln_f = (\<lambda>x. x)\<rparr>
     [1, 1, 1] [0, 1, 2] \<lparr>seq_lens = [3], num_prefill_tokens = 3\<rparr>
     (CondTensor \<lparr>shape = [1, 3, 1], rows = [- 1, - 2, - 3 :: int]\<rparr>) True False
   = Inr [- 1, - 2, 8]
   \<and> assemble \<lparr>embed_dim = 1, wte = (\<lambda>t. t), wpe_emb = (\<lambda>p. 100 * p + 7),
             start_layer = 0, end_layer = 0, h = (\<lambda>i x. x), ln_f = (\<lambda>x. x)\<rparr>
     [1, 1, 1, 1024] [0, 1, 2, 3] \<lparr>seq_lens = [4], num_prefill_tokens = 4\<rparr>
     (CondTensor \<lparr>shape = [1, 3, 1], rows = [- 1, - 2, - 3 :: int]\<rparr>) True False
   = Inr [- 1, - 2, - 3, 1031]"
proof -
  let ?m = "\<lparr>embed_dim = 1, wte = (\<lambda>t. t), wpe_emb = (\<lambda>p. 100 * p + 7),
             start_layer = 0, end_layer = 0, h = (\<lambda>i x. x), ln_f = (\<lambda>x. x)\<rparr> :: int gpt2"
  let ?t = "\<lparr>shape = [1, 3, 1], rows = [- 1, - 2, - 3 :: int]\<rparr>"
  have h1: "[1, 1, 1 :: int] \<noteq> []" and h1': "[1, 1, 1, 1024 :: int] \<noteq> []" by simp_all
  have h2: "well_shaped ?t" by (simp add: well_shaped_def)
  have h3: "last (shape ?t) = embed_dim ?m" by simp
  have h4: "0 < embed_dim ?m" by simp
  show ?thesis
    using priming_drops_trailing_row [OF h1 h2 h3 h4, of "[0, 1, 2]"
        "\<lparr>seq_lens = [3], num_prefill_tokens = 3\<rparr>"]
      priming_drops_trailing_row [OF h1' h2 h3 h4, of "[0, 1, 2, 3]"
        "\<lparr>seq_lens = [4], num_prefill_tokens = 4\<rparr>"]
    by simp
qed

text \<open>
  What line 441 computes. For a single conditioning tensor the packed elements
  before \<^verbatim>\<open>shape[1]\<close> are dropped and all the others are taken as audio tokens. For
  a tensor of shape \<open>[1, L, D]\<close> (one request under a leading batch dimension),
  \<^verbatim>\<open>shape[1]\<close> is the row count \<open>L\<close> of the conditioning, and the offset is the one
  claim C5 states.
\<close>

lemma single_offset_is_second_dimension:
  "(2 \<le> length (shape t) \<longrightarrow>
      select_inputs input_ids position_ids attn (CondTensor t) is_first_iteration True
        = Inr (True, drop (shape t ! 1) input_ids, drop (shape t ! 1) position_ids, None))
   \<and> (well_shaped t \<and> length (shape t) = 3 \<and> shape t ! 0 = 1 \<longrightarrow>
      select_inputs input_ids position_ids attn (CondTensor t) is_first_iteration True
        = Inr (True, drop (length (rows t)) input_ids, drop (length (rows t)) position_ids, None))"
proof -
  have a: "select_inputs input_ids position_ids attn (CondTensor t) is_first_iteration True
        = Inr (True, drop (shape t ! 1) input_ids, drop (shape t ! 1) position_ids, None)"
    if "2 \<le> length (shape t)"
    using that by (simp add: select_inputs_def phase_of_def shape_at_def)
  have b: "shape t ! 1 = length (rows t)"
    if "well_shaped t \<and> length (shape t) = 3 \<and> shape t ! 0 = 1"
  proof -
    have "length (shape t) = 3" using that by simp
    then obtain x y z where s: "shape t = [x, y, z]"
      by (auto simp: numeral_3_eq_3 length_Suc_conv)
    then show ?thesis using that by (simp add: well_shaped_def)
  qed
  show ?thesis using a b by simp
qed

lemma single_offset_is_second_dimension_example:
  "select_inputs [1, 1, 1, 7, 8] [0, 1, 2, 3, 4] \<lparr>seq_lens = [5], num_prefill_tokens = 5\<rparr>
     (CondTensor \<lparr>shape = [1, 3, 1], rows = [- 1, - 2, - 3 :: int]\<rparr>) False True
     = Inr (True, [7, 8], [3, 4], None)"
proof -
  let ?t = "\<lparr>shape = [1, 3, 1], rows = [- 1, - 2, - 3 :: int]\<rparr>"
  have "well_shaped ?t \<and> length (shape ?t) = 3 \<and> shape ?t ! 0 = 1"
    by (simp add: well_shaped_def)
  then show ?thesis
    using single_offset_is_second_dimension [of ?t "[1, 1, 1, 7, 8]" "[0, 1, 2, 3, 4]"
        "\<lparr>seq_lens = [5], num_prefill_tokens = 5\<rparr>" False]
    by simp
qed


section \<open>Properties of the path from the assembly to the logits\<close>

lemma no_normalization_in_blocks: "filter is_normalization (map Block layers) = []"
  by (induction layers) simp_all

text \<open>
  Claim C7, as stated, fails: on the last pipeline stage the hidden states that
  \<^verbatim>\<open>forward\<close> returns went through \<^verbatim>\<open>ln_f\<close>, and \<^verbatim>\<open>compute_logits\<close> applies
  \<^verbatim>\<open>final_norm\<close> to them, so two normalizations lie on the path, not one.
\<close>

theorem normalization_counterexample:
  "XttsGPT_forward
     \<lparr>gpt = \<lparr>embed_dim = 1, wte = (\<lambda>t. t), wpe_emb = (\<lambda>p. 100 * p),
              start_layer = 0, end_layer = 1, h = (\<lambda>i x. x), ln_f = map (\<lambda>v. v + 1)\<rparr>,
       final_norm = map (\<lambda>v. 2 * v), logits_processor = (\<lambda>x. x)\<rparr>
     \<lparr>is_first_rank = True, is_last_rank = True\<rparr>
     [7] [4] \<lparr>seq_lens = [5], num_prefill_tokens = 0\<rparr> None CondNone (FlagBool False)
     = Inr (HiddenStates [408 :: int], [Block 0, LnF])
   \<and> compute_logits
     \<lparr>gpt = \<lparr>embed_dim = 1, wte = (\<lambda>t. t), wpe_emb = (\<lambda>p. 100 * p),
              start_layer = 0, end_layer = 1, h = (\<lambda>i x. x), ln_f = map (\<lambda>v. v + 1)\<rparr>,
       final_norm = map (\<lambda>v. 2 * v), logits_processor = (\<lambda>x. x)\<rparr>
     [408 :: int] \<lparr>seq_groups = [False]\<rparr>
     = Inr \<lparr>logits = [816], collected = None, calls = [FinalNorm, MelHead]\<rparr>
   \<and> length (filter is_normalization ([Block 0, LnF] @ [FinalNorm, MelHead])) \<noteq> 1"
  by (simp add: XttsGPT_forward_def GPT2Model_forward_def is_first_iteration_of_def
      assemble_def select_inputs_def phase_of_def position_embeds_of_def
      get_fixed_embedding_def audio_inputs_embeds_of_def squeeze0_def tensor_add_def
      broadcast_shape_def unpack_hidden_def flatten_hidden_def compute_logits_def)

text \<open>
  Claim C7, amended. On the last pipeline stage the driver applies its
  normalization \<^verbatim>\<open>ln_f\<close> once, after the owned layers, and returns the normalized
  hidden states; the decode head then applies its own normalization
  \<^verbatim>\<open>final_norm\<close> to them once, gives the result to the collector when there is one,
  and projects it to the logits. So two normalizations, of two layers, lie on the
  path, in that order. On another stage the driver applies no normalization and
  returns the activation for the next stage.
\<close>

theorem normalization_by_driver_and_head:
  assumes "XttsGPT_forward x pp input_ids positions attn intermediate_tensors cond_latents
             explicit_flag = Inr (result, driver_calls)"
  shows "(is_last_rank pp \<longrightarrow>
          (\<exists>a. result = HiddenStates (ln_f (gpt x) a)
             \<and> filter is_normalization driver_calls = [LnF]
             \<and> (\<forall>sm r. compute_logits x (ln_f (gpt x) a) sm = Inr r \<longrightarrow>
                   logits r = logits_processor x (final_norm x (ln_f (gpt x) a))
                 \<and> (collected r = None \<or> collected r = Some (final_norm x (ln_f (gpt x) a)))
                 \<and> filter is_normalization (driver_calls @ calls r) = [LnF, FinalNorm])))
     \<and> (\<not> is_last_rank pp \<longrightarrow>
          (\<exists>a. result = IntermediateTensors a) \<and> filter is_normalization driver_calls = [])"
proof -
  let ?first = "is_first_iteration_of input_ids"
  let ?logits = "check_is_logits_only_mode explicit_flag"
  let ?input = "if is_first_rank pp
            then assemble (gpt x) input_ids positions attn cond_latents ?first ?logits
            else (case intermediate_tensors of
                    None \<Rightarrow> Inl AssertionError
                  | Some hidden_states \<Rightarrow> Inr hidden_states)"
  obtain hs where hs: "?input = Inr hs"
    using assms by (cases ?input) (simp_all add: XttsGPT_forward_def GPT2Model_forward_def)
  let ?layers = "[start_layer (gpt x)..<end_layer (gpt x)]"
  let ?a = "apply_layers (gpt x) ?layers hs"
  have res: "(result, driver_calls) =
      (if \<not> is_last_rank pp then (IntermediateTensors ?a, map Block ?layers)
       else (HiddenStates (ln_f (gpt x) ?a), map Block ?layers @ [LnF]))"
    using assms hs by (simp add: XttsGPT_forward_def GPT2Model_forward_def Let_def split: if_splits)
  have last: "\<exists>a. result = HiddenStates (ln_f (gpt x) a)
             \<and> filter is_normalization driver_calls = [LnF]
             \<and> (\<forall>sm r. compute_logits x (ln_f (gpt x) a) sm = Inr r \<longrightarrow>
                   logits r = logits_processor x (final_norm x (ln_f (gpt x) a))
                 \<and> (collected r = None \<or> collected r = Some (final_norm x (ln_f (gpt x) a)))
                 \<and> filter is_normalization (driver_calls @ calls r) = [LnF, FinalNorm])"
    if l: "is_last_rank pp"
  proof -
    have r: "result = HiddenStates (ln_f (gpt x) ?a)" and c: "driver_calls = map Block ?layers @ [LnF]"
      using res l by simp_all
    have f: "filter is_normalization driver_calls = [LnF]"
      using c by (simp add: no_normalization_in_blocks)
    have h: "logits r = logits_processor x (final_norm x (ln_f (gpt x) ?a))
                 \<and> (collected r = None \<or> collected r = Some (final_norm x (ln_f (gpt x) ?a)))
                 \<and> filter is_normalization (driver_calls @ calls r) = [LnF, FinalNorm]"
      if "compute_logits x (ln_f (gpt x) ?a) sm = Inr r" for sm r
      using that f by (auto simp: compute_logits_def Let_def split: list.splits)
    show ?thesis using r f h by blast
  qed
  have notlast: "(\<exists>a. result = IntermediateTensors a) \<and> filter is_normalization driver_calls = []"
    if "\<not> is_last_rank pp"
    using res that by (simp add: no_normalization_in_blocks)
  show ?thesis using last notlast by blast
qed

theorem normalization_by_driver_and_head_witness:
  "filter is_normalization ([Block 0, LnF] @ [FinalNorm, MelHead]) = [LnF, FinalNorm]
   \<and> (\<exists>a. HiddenStates [408 :: int] = HiddenStates (map (\<lambda>v. v + 1) a))"
proof -
  let ?x = "\<lparr>gpt = \<lparr>embed_dim = 1, wte = (\<lambda>t. t), wpe_emb = (\<lambda>p. 100 * p),
              start_layer = 0, end_layer = 1, h = (\<lambda>i x. x), ln_f = map (\<lambda>v. v + 1)\<rparr>,
       final_norm = map (\<lambda>v. 2 * v), logits_processor = (\<lambda>x. x)\<rparr> :: (int, int list) xtts_gpt"
  let ?pp = "\<lparr>is_first_rank = True, is_last_rank = True\<rparr>"
  have run: "XttsGPT_forward ?x ?pp [7] [4] \<lparr>seq_lens = [5], num_prefill_tokens = 0\<rparr> None CondNone
      (FlagBool False) = Inr (HiddenStates [408 :: int], [Block 0, LnF])"
    by (simp add: XttsGPT_forward_def GPT2Model_forward_def is_first_iteration_of_def
      assemble_def select_inputs_def phase_of_def position_embeds_of_def
      get_fixed_embedding_def audio_inputs_embeds_of_def squeeze0_def tensor_add_def
      broadcast_shape_def unpack_hidden_def flatten_hidden_def)
  have "is_last_rank ?pp" by simp
  then obtain a where a: "HiddenStates [408 :: int] = HiddenStates (ln_f (gpt ?x) a)"
      and all: "\<forall>sm r. compute_logits ?x (ln_f (gpt ?x) a) sm = Inr r \<longrightarrow>
                   logits r = logits_processor ?x (final_norm ?x (ln_f (gpt ?x) a))
                 \<and> (collected r = None \<or> collected r = Some (final_norm ?x (ln_f (gpt ?x) a)))
                 \<and> filter is_normalization ([Block 0, LnF] @ calls r) = [LnF, FinalNorm]"
    using normalization_by_driver_and_head [OF run] by blast
  have "compute_logits ?x (ln_f (gpt ?x) a) \<lparr>seq_groups = [False]\<rparr>
      = Inr \<lparr>logits = final_norm ?x (ln_f (gpt ?x) a), collected = None, calls = [FinalNorm, MelHead]\<rparr>"
    by (simp add: compute_logits_def)
  then have "filter is_normalization ([Block 0, LnF] @ [FinalNorm, MelHead]) = [LnF, FinalNorm]"
    using all by fastforce
  then show ?thesis using a by auto
qed

section \<open>Properties of the weight loading\<close>






lemma update_declared_names: "map_of ps name = Some p \<Longrightarrow> fst ` set (AList.update name p' ps) = fst ` set ps"
  by (auto simp: dom_update dest: map_of_SomeD) (metis fst_conv image_eqI map_of_SomeD)

lemma load_loop_skip:
  "load_loop ld ps loaded (filter (\<lambda>(name, w). name \<in> fst ` set ps) ws) = load_loop ld ps loaded ws"
proof (induction ws arbitrary: ps loaded)
  case Nil
  then show ?case by simp
next
  case (Cons a ws)
  obtain name w where a: "a = (name, w)" by (cases a)
  show ?case
  proof (cases "map_of ps name")
    case None
    then have "name \<notin> fst ` set ps" by (simp add: map_of_eq_None_iff)
    then show ?thesis using None a Cons.IH by simp
  next
    case (Some p)
    then have mem: "name \<in> fst ` set ps" by (metis map_of_eq_None_iff option.distinct(1))
    show ?thesis
    proof (cases "weight_loader ld name p (if is_transposed name then transpose ld w else w)")
      case (Inl e)
      then show ?thesis using Some a mem by simp
    next
      case (Inr p')
      have k: "fst ` set (AList.update name p' ps) = fst ` set ps" using Some by (rule update_declared_names)
      show ?thesis using Some a mem Inr Cons.IH [of "AList.update name p' ps" "insert name loaded"] k
        by simp
    qed
  qed
qed

text \<open>
  Claim C10. A supplied pair whose name is not a declared parameter is skipped:
  loading with such pairs gives what loading without them gives, the same
  parameters or the same error, so they raise nothing, bind nothing and do not
  count as loaded.
\<close>

theorem unknown_names_skipped:
  "load_weights ld params_dict (filter (\<lambda>(name, w). name \<in> set (map fst params_dict)) weights)
     = load_weights ld params_dict weights
   \<and> (name \<notin> set (map fst params_dict) \<longrightarrow>
        load_weights ld params_dict (before @ (name, w) # after)
          = load_weights ld params_dict (before @ after))"
proof -
  have eq: "load_weights ld params_dict (filter (\<lambda>(name, w). name \<in> set (map fst params_dict)) ws)
     = load_weights ld params_dict ws" for ws
    using load_loop_skip [of ld params_dict "{}" ws] by (simp add: load_weights_def)
  have "load_weights ld params_dict (before @ (name, w) # after)
          = load_weights ld params_dict (before @ after)"
    if "name \<notin> set (map fst params_dict)"
  proof -
    have "filter (\<lambda>(name, w). name \<in> set (map fst params_dict)) (before @ (name, w) # after)
        = filter (\<lambda>(name, w). name \<in> set (map fst params_dict)) (before @ after)"
      using that by simp
    then show ?thesis
      using eq [of "before @ (name, w) # after"] eq [of "before @ after"] by simp
  qed
  then show ?thesis using eq by blast
qed

theorem unknown_names_skipped_witness:
  "load_weights \<lparr>transpose = (\<lambda>w. - w), weight_loader = (\<lambda>n p w. Inr w)\<rparr>
     [(''wte.weight'', 0 :: int)] [(''extra.bias'', 5), (''wte.weight'', 1)]
   = Inr [(''wte.weight'', 1)]"
proof -
  have "''extra.bias'' \<notin> set (map fst [(''wte.weight'', 0 :: int)])" by simp
  then have "load_weights \<lparr>transpose = (\<lambda>w. - w), weight_loader = (\<lambda>n p w. Inr w)\<rparr>
       [(''wte.weight'', 0 :: int)] ([] @ (''extra.bias'', 5) # [(''wte.weight'', 1)])
     = load_weights \<lparr>transpose = (\<lambda>w. - w), weight_loader = (\<lambda>n p w. Inr w)\<rparr>
       [(''wte.weight'', 0 :: int)] ([] @ [(''wte.weight'', 1)])"
    using unknown_names_skipped [of "\<lparr>transpose = (\<lambda>w. - w), weight_loader = (\<lambda>n p w. Inr w)\<rparr>"
      "[(''wte.weight'', 0 :: int)]" "[]" "''extra.bias''" "[]" 5 "[(''wte.weight'', 1)]"]
    by blast
  moreover have "load_weights \<lparr>transpose = (\<lambda>w. - w), weight_loader = (\<lambda>n p w. Inr w)\<rparr>
       [(''wte.weight'', 0 :: int)] [(''wte.weight'', 1)] = Inr [(''wte.weight'', 1)]"
    by (simp add: load_weights_def is_transposed_def sublist_code prefix_code)
  ultimately show ?thesis by simp
qed

end
